theory Spec2Isabelle
  imports Complex_Main "HOL-Library.Log_Nat"
begin

section \<open>The corpus as the script sees it\<close>

text \<open>
  The script \<^verbatim>\<open>src/lib/anc_masc_ptb_extract.py\<close> never looks inside a parse tree: it
  calls methods of the corpus library on it and works with what they return. A
  production is therefore modelled by the results of the three calls the script makes on
  it, and a sentence by the results of \<^verbatim>\<open>label()\<close>, of the in-place normalisation and
  of \<^verbatim>\<open>productions()\<close> on the normalised tree. A call either returns a value
  (\<open>Inr\<close>) or raises (\<open>Inl\<close>).

  An exception is \<^verbatim>\<open>ZeroDivisionError\<close>, another instance of \<^verbatim>\<open>Exception\<close>, or
  one that is not an instance of \<^verbatim>\<open>Exception\<close> (\<^verbatim>\<open>KeyboardInterrupt\<close>,
  \<^verbatim>\<open>SystemExit\<close>), which \<^verbatim>\<open>except Exception\<close> does not catch. Strings are byte
  strings.
\<close>

datatype exn = ZeroDivisionError | Exception string | BaseException string

fun instance_of_Exception :: "exn \<Rightarrow> bool" where
  "instance_of_Exception ZeroDivisionError = True"
| "instance_of_Exception (Exception name) = True"
| "instance_of_Exception (BaseException name) = False"

record production =
  is_lexical :: "exn + bool"
  unicode_repr :: "exn + string"
  lhs_unicode_repr :: "exn + string"

text \<open>\<open>lhs_unicode_repr p\<close> is \<^verbatim>\<open>p.lhs().unicode_repr()\<close>.\<close>

record sentence =
  label :: "exn + string"
  chomsky_normal_form :: "exn + unit"
  productions :: "exn + production list"

text \<open>
  The two accumulators of the counting pass: \<^verbatim>\<open>terminal = set()\<close> and
  \<^verbatim>\<open>binary = dict()\<close>, a dictionary of dictionaries of counts.
\<close>

record state =
  terminal :: "string set"
  binary :: "string \<rightharpoonup> (string \<rightharpoonup> nat)"

text \<open>
  A statement either completes or raises; in both cases the accumulators are in some
  state, since they are mutated in place.
\<close>

datatype 'a outcome = Returns 'a | Raises exn 'a

fun state_of :: "'a outcome \<Rightarrow> 'a" where
  "state_of (Returns s) = s"
| "state_of (Raises e s) = s"

section \<open>The counting pass\<close>

text \<open>
  Lines 23 to 28: the inner dictionary is created on the first rule of a left-hand side,
  a rule starts at 1 and is incremented afterwards.
\<close>

definition count_rule ::
  "string \<Rightarrow> string \<Rightarrow> (string \<rightharpoonup> (string \<rightharpoonup> nat)) \<Rightarrow> (string \<rightharpoonup> (string \<rightharpoonup> nat))" where
  "count_rule lhs rule b =
     (let b1 = (if lhs \<notin> dom b then b(lhs \<mapsto> Map.empty) else b);
          rules = the (b1 lhs)
      in if rule \<notin> dom rules then b1(lhs \<mapsto> rules(rule \<mapsto> 1))
         else b1(lhs \<mapsto> rules(rule \<mapsto> the (rules rule) + 1)))"

text \<open>Lines 17 to 28, the body of the loop over the productions of one sentence.\<close>

definition process_production :: "production \<Rightarrow> state \<Rightarrow> state outcome" where
  "process_production p s =
     (case is_lexical p of
        Inl e \<Rightarrow> Raises e s
      | Inr True \<Rightarrow>
          (case unicode_repr p of
             Inl e \<Rightarrow> Raises e s
           | Inr r \<Rightarrow> Returns (s\<lparr>terminal := insert r (terminal s)\<rparr>))
      | Inr False \<Rightarrow>
          (case lhs_unicode_repr p of
             Inl e \<Rightarrow> Raises e s
           | Inr lhs \<Rightarrow>
               (case unicode_repr p of
                  Inl e \<Rightarrow> Raises e s
                | Inr rule \<Rightarrow> Returns (s\<lparr>binary := count_rule lhs rule (binary s)\<rparr>))))"

text \<open>Line 16: the loop stops at the first production whose processing raises.\<close>

fun for_productions :: "production list \<Rightarrow> state \<Rightarrow> state outcome" where
  "for_productions [] s = Returns s"
| "for_productions (p # ps) s =
     (case process_production p s of
        Raises e s' \<Rightarrow> Raises e s'
      | Returns s' \<Rightarrow> for_productions ps s')"

text \<open>Lines 15 to 28, the body of the \<^verbatim>\<open>try\<close>.\<close>

definition try_block :: "sentence \<Rightarrow> state \<Rightarrow> state outcome" where
  "try_block sent s =
     (case chomsky_normal_form sent of
        Inl e \<Rightarrow> Raises e s
      | Inr u \<Rightarrow>
          (case productions sent of
             Inl e \<Rightarrow> Raises e s
           | Inr ps \<Rightarrow> for_productions ps s))"

text \<open>
  Lines 13 to 30. \<^verbatim>\<open>sent.label()\<close> is called outside the \<^verbatim>\<open>try\<close>, so what it
  raises leaves the loop. \<^verbatim>\<open>except Exception: pass\<close> goes on from the state the
  accumulators are in when an instance of \<^verbatim>\<open>Exception\<close> is raised, and lets
  any other exception through.
\<close>

definition process_sentence :: "sentence \<Rightarrow> state \<Rightarrow> state outcome" where
  "process_sentence sent s =
     (case label sent of
        Inl e \<Rightarrow> Raises e s
      | Inr l \<Rightarrow>
          if l \<noteq> ''CODE'' then
            (case try_block sent s of
               Returns s' \<Rightarrow> Returns s'
             | Raises e s' \<Rightarrow> if instance_of_Exception e then Returns s' else Raises e s')
          else Returns s)"

text \<open>
  Line 12: \<^verbatim>\<open>reader.parsed_sents(fileid)\<close> parses the file as the loop asks for the
  next sentence, so each step of the iteration yields a sentence or raises, outside the
  \<^verbatim>\<open>try\<close>. A file is the list of these steps; a call of
  \<^verbatim>\<open>parsed_sents\<close> that raises at once is a first step that raises.
\<close>

fun for_sentences :: "(exn + sentence) list \<Rightarrow> state \<Rightarrow> state outcome" where
  "for_sentences [] s = Returns s"
| "for_sentences (Inl e # steps) s = Raises e s"
| "for_sentences (Inr sent # steps) s =
     (case process_sentence sent s of
        Raises e s' \<Rightarrow> Raises e s'
      | Returns s' \<Rightarrow> for_sentences steps s')"

text \<open>Line 11: the loop over the files.\<close>

fun for_files :: "(exn + sentence) list list \<Rightarrow> state \<Rightarrow> state outcome" where
  "for_files [] s = Returns s"
| "for_files (steps # files) s =
     (case for_sentences steps s of
        Raises e s' \<Rightarrow> Raises e s'
      | Returns s' \<Rightarrow> for_files files s')"

definition initial_state :: state where
  "initial_state = \<lparr>terminal = {}, binary = Map.empty\<rparr>"

definition counting_pass :: "(exn + sentence) list list \<Rightarrow> state outcome" where
  "counting_pass files = for_files files initial_state"

section \<open>Doubles\<close>

text \<open>
  Line 42 computes \<^verbatim>\<open>1.0 * count / num_rules\<close> in binary64 arithmetic: both integers
  are converted to the nearest double, and the quotient of the two doubles is rounded to
  the nearest double, ties going to the even significand. A double is modelled by the
  rational it stands for. \<open>to_double\<close> rounds a rational to 53 significant bits; the
  range of the exponent is not modelled, which agrees with binary64 for values from
  \<^verbatim>\<open>2 ** -1022\<close> up to \<^verbatim>\<open>2 ** 1023\<close>, far beyond any count a run can reach.
\<close>

definition pow2 :: "int \<Rightarrow> rat" where
  "pow2 k = (if 0 \<le> k then 2 ^ nat k else 1 / 2 ^ nat (- k))"

definition round_half_even :: "rat \<Rightarrow> int" where
  "round_half_even x =
     (let f = \<lfloor>x\<rfloor>; d = x - of_int f
      in if d < 1 / 2 then f
         else if 1 / 2 < d then f + 1
         else if even f then f else f + 1)"

text \<open>
  The exponent of a positive rational \<open>q\<close>: the \<open>e\<close> with
  \<open>pow2 e \<le> q < pow2 (e + 1)\<close>, found from the bit lengths of numerator and denominator.
\<close>

definition exponent_of :: "rat \<Rightarrow> int" where
  "exponent_of q =
     (case quotient_of q of (a, b) \<Rightarrow>
        let e = bitlen a - bitlen b
        in if pow2 e \<le> q then e else e - 1)"

definition to_double :: "rat \<Rightarrow> rat" where
  "to_double q =
     (if q = 0 then 0
      else let e = exponent_of \<bar>q\<bar>
           in sgn q * of_int (round_half_even (\<bar>q\<bar> * pow2 (52 - e))) * pow2 (e - 52))"

definition double_quotient :: "nat \<Rightarrow> nat \<Rightarrow> rat" where
  "double_quotient count num_rules =
     to_double (to_double (1 * to_double (of_nat count)) / to_double (of_nat num_rules))"

text \<open>The division raises on a zero divisor.\<close>

definition relative_frequency :: "nat \<Rightarrow> nat \<Rightarrow> exn + rat" where
  "relative_frequency count num_rules =
     (if to_double (of_nat num_rules) = 0 then Inl ZeroDivisionError
      else Inr (double_quotient count num_rules))"

section \<open>The report\<close>

text \<open>
  Python 2 leaves the order in which a set and a dictionary are enumerated open. The
  report is therefore a function of the sequences the enumerations yield:
  \<open>ts\<close> for the terminal set, and \<open>bs\<close> for \<^verbatim>\<open>binary.iteritems()\<close>, where
  each left-hand side comes with the sequence \<^verbatim>\<open>rules.iteritems()\<close> of its inner
  dictionary (\<^verbatim>\<open>rules.itervalues()\<close> yields the counts of that sequence).
\<close>

definition iterates_set :: "'a list \<Rightarrow> 'a set \<Rightarrow> bool" where
  "iterates_set xs A = (distinct xs \<and> set xs = A)"

definition iterates_dict :: "('k \<times> 'v) list \<Rightarrow> ('k \<rightharpoonup> 'v) \<Rightarrow> bool" where
  "iterates_dict kvs m = (distinct (map fst kvs) \<and> map_of kvs = m)"

definition iterates_binary ::
  "(string \<times> (string \<times> nat) list) list \<Rightarrow> (string \<rightharpoonup> (string \<rightharpoonup> nat)) \<Rightarrow> bool" where
  "iterates_binary bs b =
     (list_all (\<lambda>(lhs, rules). distinct (map fst rules)) bs \<and>
      iterates_dict (map (\<lambda>(lhs, rules). (lhs, map_of rules)) bs) b)"

definition newline :: char where
  "newline = CHR 0x0A"

text \<open>
  The \<^verbatim>\<open>print\<close> statement of Python 2. With one item it writes the item and a
  newline. With two items it writes a space between them unless the first item ends in
  a whitespace character other than the space.
\<close>

definition py_isspace :: "char \<Rightarrow> bool" where
  "py_isspace c = (c \<in> {CHR 0x20, CHR 0x09, CHR 0x0A, CHR 0x0B, CHR 0x0C, CHR 0x0D})"

definition softspace :: "string \<Rightarrow> string" where
  "softspace a = (if a = [] \<or> \<not> py_isspace (last a) \<or> last a = CHR 0x20 then '' '' else [])"

definition py_print :: "string \<Rightarrow> string" where
  "py_print a = a @ [newline]"

definition py_print2 :: "string \<Rightarrow> string \<Rightarrow> string" where
  "py_print2 a b = a @ softspace a @ b @ [newline]"

fun join_newline :: "string list \<Rightarrow> string" where
  "join_newline [] = []"
| "join_newline [t] = t"
| "join_newline (t # u # ts) = t @ [newline] @ join_newline (u # ts)"

text \<open>\<open>float_str\<close> stands for the text \<^verbatim>\<open>print\<close> writes for a double.\<close>

definition num_rules_of :: "(string \<times> nat) list \<Rightarrow> nat" where
  "num_rules_of rules = sum_list (map snd rules)"

text \<open>
  Lines 41 and 42, the loop over the rules of one left-hand side. What was written
  before an exception stays written.
\<close>

fun write_rules :: "(rat \<Rightarrow> string) \<Rightarrow> nat \<Rightarrow> (string \<times> nat) list \<Rightarrow> string outcome" where
  "write_rules float_str num_rules [] = Returns []"
| "write_rules float_str num_rules ((rule, count) # rules) =
     (case relative_frequency count num_rules of
        Inl e \<Rightarrow> Raises e []
      | Inr q \<Rightarrow>
          (case write_rules float_str num_rules rules of
             Raises e out \<Rightarrow> Raises e (py_print2 rule (float_str q) @ out)
           | Returns out \<Rightarrow> Returns (py_print2 rule (float_str q) @ out)))"

text \<open>Lines 38 to 42, the loop over the left-hand sides.\<close>

fun write_binaries :: "(rat \<Rightarrow> string) \<Rightarrow> (string \<times> (string \<times> nat) list) list \<Rightarrow> string outcome" where
  "write_binaries float_str [] = Returns []"
| "write_binaries float_str ((lhs, rules) # bs) =
     (case write_rules float_str (num_rules_of rules) rules of
        Raises e out \<Rightarrow> Raises e out
      | Returns out \<Rightarrow>
          (case write_binaries float_str bs of
             Raises e out' \<Rightarrow> Raises e (out @ out')
           | Returns out' \<Rightarrow> Returns (out @ out')))"

text \<open>Lines 32 to 42: everything the function writes to the standard output.\<close>

definition write_report ::
  "(rat \<Rightarrow> string) \<Rightarrow> string list \<Rightarrow> (string \<times> (string \<times> nat) list) list \<Rightarrow> string outcome" where
  "write_report float_str ts bs =
     (let head = py_print ''TERMINALS'' @ py_print (join_newline ts) @ py_print [] @
                 py_print ''BINARIES''
      in case write_binaries float_str bs of
           Raises e out \<Rightarrow> Raises e (head @ out)
         | Returns out \<Rightarrow> Returns (head @ out))"

text \<open>
  What the function takes from outside: the reader, the text written for a double, and
  the orders of enumeration. \<open>parsed_sents env path\<close> is \<open>Inl\<close> when
  \<^verbatim>\<open>BracketParseCorpusReader(path, ...)\<close> of line 5 or \<^verbatim>\<open>reader.fileids()\<close> of
  line 11 raises; otherwise it is the list of the files, each the steps of its iteration.
\<close>

record environment =
  parsed_sents :: "string \<Rightarrow> exn + (exn + sentence) list list"
  str_of_float :: "rat \<Rightarrow> string"
  iter_terminal :: "string set \<Rightarrow> string list"
  iteritems_binary :: "(string \<rightharpoonup> (string \<rightharpoonup> nat)) \<Rightarrow> (string \<times> (string \<times> nat) list) list"

text \<open>
  Lines 4 to 42: the text written to the standard output, and whether the function
  returns or raises. An exception that leaves the loops ends the function before the
  first \<^verbatim>\<open>print\<close>.
\<close>

definition extract_cnf_from_anc_masc_ptb :: "environment \<Rightarrow> string \<Rightarrow> string outcome" where
  "extract_cnf_from_anc_masc_ptb env path =
     (case parsed_sents env path of
        Inl e \<Rightarrow> Raises e []
      | Inr files \<Rightarrow>
          (case counting_pass files of
             Raises e s \<Rightarrow> Raises e []
           | Returns s \<Rightarrow>
               write_report (str_of_float env) (iter_terminal env (terminal s))
                 (iteritems_binary env (binary s))))"

text \<open>Lines 44 to 47; \<open>argv\<close> is \<^verbatim>\<open>sys.argv\<close>, the name of the script first.\<close>

definition main :: "environment \<Rightarrow> string list \<Rightarrow> string outcome" where
  "main env argv =
     (let path = (if length argv > 1 then argv ! 1 else ''./'')
      in extract_cnf_from_anc_masc_ptb env path)"

section \<open>The productions a run tallies\<close>

text \<open>
  A production is processed when every call the script makes on it returns. The
  productions of a sentence that reach the accumulators are those before the first one
  that is not processed, when \<^verbatim>\<open>label()\<close> returns a label other than
  \<^verbatim>\<open>CODE\<close> and the normalisation and \<^verbatim>\<open>productions()\<close> return.
\<close>

definition processes :: "production \<Rightarrow> bool" where
  "processes p =
     (case process_production p initial_state of
        Returns s \<Rightarrow> True
      | Raises e s \<Rightarrow> False)"

definition tallied_of :: "sentence \<Rightarrow> production list" where
  "tallied_of sent =
     (case label sent of
        Inl e \<Rightarrow> []
      | Inr l \<Rightarrow>
          if l \<noteq> ''CODE'' then
            (case chomsky_normal_form sent of
               Inl e \<Rightarrow> []
             | Inr u \<Rightarrow>
                 (case productions sent of
                    Inl e \<Rightarrow> []
                  | Inr ps \<Rightarrow> takeWhile processes ps))
          else [])"

text \<open>The exception that leaves the processing of a sentence, if one does.\<close>

definition leaves :: "sentence \<Rightarrow> exn option" where
  "leaves sent =
     (case process_sentence sent initial_state of
        Returns s \<Rightarrow> None
      | Raises e s \<Rightarrow> Some e)"

text \<open>
  The productions tallied until the loops end, and the exception that ends them, if one
  does: the steps after the first one that raises, or whose sentence lets an exception
  through, are never reached.
\<close>

fun tallied_steps :: "(exn + sentence) list \<Rightarrow> production list" where
  "tallied_steps [] = []"
| "tallied_steps (Inl e # steps) = []"
| "tallied_steps (Inr sent # steps) =
     tallied_of sent @ (case leaves sent of None \<Rightarrow> tallied_steps steps | Some e \<Rightarrow> [])"

fun aborted_steps :: "(exn + sentence) list \<Rightarrow> exn option" where
  "aborted_steps [] = None"
| "aborted_steps (Inl e # steps) = Some e"
| "aborted_steps (Inr sent # steps) =
     (case leaves sent of None \<Rightarrow> aborted_steps steps | Some e \<Rightarrow> Some e)"

definition tallied :: "(exn + sentence) list list \<Rightarrow> production list" where
  "tallied files = tallied_steps (concat files)"

definition aborted :: "(exn + sentence) list list \<Rightarrow> exn option" where
  "aborted files = aborted_steps (concat files)"

fun finish :: "exn option \<Rightarrow> 'a \<Rightarrow> 'a outcome" where
  "finish None s = Returns s"
| "finish (Some e) s = Raises e s"

definition tally :: "production \<Rightarrow> state \<Rightarrow> state" where
  "tally p s = state_of (process_production p s)"

text \<open>The number of tallied occurrences of a rule under a left-hand side.\<close>

definition occurrences :: "string \<Rightarrow> string \<Rightarrow> production list \<Rightarrow> nat" where
  "occurrences lhs rule ps =
     length (filter (\<lambda>p. is_lexical p = Inr False \<and> lhs_unicode_repr p = Inr lhs \<and>
                          unicode_repr p = Inr rule) ps)"

definition count_in :: "(string \<rightharpoonup> (string \<rightharpoonup> nat)) \<Rightarrow> string \<Rightarrow> string \<Rightarrow> nat" where
  "count_in b lhs rule =
     (case b lhs of
        None \<Rightarrow> 0
      | Some rules \<Rightarrow> (case rules rule of None \<Rightarrow> 0 | Some c \<Rightarrow> c))"

text \<open>The lines of a text: the pieces its newlines end, and what follows the last one.\<close>

fun lines_from :: "string \<Rightarrow> string \<Rightarrow> string list" where
  "lines_from cur [] = (if cur = [] then [] else [cur])"
| "lines_from cur (c # cs) =
     (if c = newline then cur # lines_from [] cs else lines_from (cur @ [c]) cs)"

definition lines_of :: "string \<Rightarrow> string list" where
  "lines_of text = lines_from [] text"

text \<open>
  The enumerations of an environment are those of a state when they yield every element
  of the set, and every item of the dictionaries, once.
\<close>

definition valid_iteration :: "environment \<Rightarrow> state \<Rightarrow> bool" where
  "valid_iteration env s =
     (iterates_set (iter_terminal env (terminal s)) (terminal s) \<and>
      iterates_binary (iteritems_binary env (binary s)) (binary s))"

text \<open>Every count of a dictionary of dictionaries is positive, and no inner one is empty.\<close>

definition counts_positive :: "(string \<rightharpoonup> (string \<rightharpoonup> nat)) \<Rightarrow> bool" where
  "counts_positive b =
     (\<forall>lhs rules. b lhs = Some rules \<longrightarrow>
        rules \<noteq> Map.empty \<and> (\<forall>rule c. rules rule = Some c \<longrightarrow> 1 \<le> c))"

section \<open>Notions used in the statements\<close>

text \<open>
  A sentence is successfully processed when \<^verbatim>\<open>label()\<close> returns a label other than
  \<^verbatim>\<open>CODE\<close> and the body of the \<^verbatim>\<open>try\<close> returns on it; its productions are
  those \<^verbatim>\<open>productions()\<close> returns. The sentences of a corpus are those its steps
  yield.
\<close>

definition successfully_processed :: "sentence \<Rightarrow> bool" where
  "successfully_processed sent =
     (case label sent of
        Inl e \<Rightarrow> False
      | Inr l \<Rightarrow>
          l \<noteq> ''CODE'' \<and>
          (case try_block sent initial_state of Returns s \<Rightarrow> True | Raises e s \<Rightarrow> False))"

definition productions_of :: "sentence \<Rightarrow> production list" where
  "productions_of sent = (case productions sent of Inl e \<Rightarrow> [] | Inr ps \<Rightarrow> ps)"

fun sentences_of :: "(exn + sentence) list \<Rightarrow> sentence list" where
  "sentences_of [] = []"
| "sentences_of (Inl e # steps) = sentences_of steps"
| "sentences_of (Inr sent # steps) = sent # sentences_of steps"

text \<open>
  What the script reads of a production it tallies: that it is lexical and its rule
  string, or that it is not and its left-hand side and rule string.
\<close>

datatype event = Terminal_rule string | Binary_rule string string

definition event_of :: "production \<Rightarrow> event option" where
  "event_of p =
     (case is_lexical p of
        Inl e \<Rightarrow> None
      | Inr True \<Rightarrow> (case unicode_repr p of Inl e \<Rightarrow> None | Inr r \<Rightarrow> Some (Terminal_rule r))
      | Inr False \<Rightarrow>
          (case lhs_unicode_repr p of
             Inl e \<Rightarrow> None
           | Inr lhs \<Rightarrow>
               (case unicode_repr p of Inl e \<Rightarrow> None | Inr rule \<Rightarrow> Some (Binary_rule lhs rule))))"

text \<open>
  A string is one line when it holds no newline. The line written for a rule is the rule,
  the separator of \<^verbatim>\<open>print\<close> and the text of the double line 42 computes.
\<close>

definition one_line :: "string \<Rightarrow> bool" where
  "one_line t = (newline \<notin> set t)"

definition rule_line :: "(rat \<Rightarrow> string) \<Rightarrow> nat \<Rightarrow> string \<times> nat \<Rightarrow> string" where
  "rule_line float_str num_rules item =
     (case item of (rule, count) \<Rightarrow>
        rule @ softspace rule @ float_str (double_quotient count num_rules))"

definition binary_lines :: "(rat \<Rightarrow> string) \<Rightarrow> (string \<times> (string \<times> nat) list) list \<Rightarrow> string list" where
  "binary_lines float_str bs =
     concat (map (\<lambda>(lhs, rules). map (rule_line float_str (num_rules_of rules)) rules) bs)"

definition unlines :: "string list \<Rightarrow> string" where
  "unlines ls = concat (map py_print ls)"

text \<open>
  The library writes the rule string of a production as its left-hand side, an arrow and
  the symbols of its right-hand side, separated by single spaces. The right-hand side of
  a rule string is what follows the arrow; a rule is strictly binary when that holds
  exactly two symbols.
\<close>

fun words_from :: "string \<Rightarrow> string \<Rightarrow> string list" where
  "words_from cur [] = (if cur = [] then [] else [cur])"
| "words_from cur (c # cs) =
     (if c = CHR 0x20 then (if cur = [] then [] else [cur]) @ words_from [] cs
      else words_from (cur @ [c]) cs)"

definition rhs_symbols :: "string \<Rightarrow> string list" where
  "rhs_symbols rule = tl (dropWhile (\<lambda>w. w \<noteq> ''->'') (words_from [] rule))"

definition strictly_binary :: "string \<Rightarrow> bool" where
  "strictly_binary rule = (length (rhs_symbols rule) = 2)"

section \<open>Example inputs\<close>

text \<open>
  Productions on which every call returns, one on which \<^verbatim>\<open>unicode_repr()\<close>
  raises, and a sentence whose label, normalisation and \<^verbatim>\<open>productions()\<close> return.
  The rule string of a lexical production is written with a space after the closing
  quote of the word, which keeps that quote apart from the end of the literal.
\<close>

definition nonlexical :: "string \<Rightarrow> string \<Rightarrow> production" where
  "nonlexical lhs rule =
     \<lparr>is_lexical = Inr False, unicode_repr = Inr rule, lhs_unicode_repr = Inr lhs\<rparr>"

definition lexical :: "string \<Rightarrow> string \<Rightarrow> production" where
  "lexical lhs rule =
     \<lparr>is_lexical = Inr True, unicode_repr = Inr rule, lhs_unicode_repr = Inr lhs\<rparr>"

definition raising :: production where
  "raising =
     \<lparr>is_lexical = Inr True, unicode_repr = Inl (Exception ''UnicodeDecodeError''),
      lhs_unicode_repr = Inr ''NN''\<rparr>"

definition parsed :: "string \<Rightarrow> production list \<Rightarrow> sentence" where
  "parsed l ps = \<lparr>label = Inr l, chomsky_normal_form = Inr (), productions = Inr ps\<rparr>"

text \<open>A corpus of one file with one sentence.\<close>

definition small_corpus :: "(exn + sentence) list list" where
  "small_corpus =
     [[Inr (parsed ''S''
         [nonlexical ''S'' ''S -> NP VP'',
          nonlexical ''NP'' ''NP -> DT NN'',
          lexical ''DT'' ''DT -> 'the' '',
          lexical ''NN'' ''NN -> 'dog' '',
          nonlexical ''VP'' ''VP -> VBD NP'',
          lexical ''VBD'' ''VBD -> 'saw' '',
          nonlexical ''NP'' ''NP -> NP PP'',
          nonlexical ''NP'' ''NP -> DT NN''])]]"

text \<open>
  A corpus that differs from the small one in its files, its labels, a sentence that
  is skipped, one whose normalisation raises and what follows a production that raises,
  and tallies the same productions.
\<close>

definition other_corpus :: "(exn + sentence) list list" where
  "other_corpus =
     [[Inr (parsed ''S''
         [nonlexical ''S'' ''S -> NP VP'',
          nonlexical ''NP'' ''NP -> DT NN'',
          lexical ''DT'' ''DT -> 'the' ''])],
      [Inr (parsed ''CODE'' [lexical ''NN'' ''NN -> 'cat' ''])],
      [Inr \<lparr>label = Inr ''X'', chomsky_normal_form = Inl (Exception ''ValueError''),
        productions = Inr [lexical ''NN'' ''NN -> 'cat' '']\<rparr>,
       Inr (parsed ''FRAG''
         [lexical ''NN'' ''NN -> 'dog' '',
          nonlexical ''VP'' ''VP -> VBD NP'',
          lexical ''VBD'' ''VBD -> 'saw' '',
          nonlexical ''NP'' ''NP -> NP PP'',
          nonlexical ''NP'' ''NP -> DT NN'',
          raising,
          lexical ''NN'' ''NN -> 'cat' ''])]]"

text \<open>
  The tree \<^verbatim>\<open>(S (NP (NNP John)) (VP (VBD ran)))\<close>: no node has more than two
  children, so the normalisation of the library, which only factors such nodes, leaves it
  as it is, with these productions.
\<close>

definition john_ran :: sentence where
  "john_ran =
     parsed ''S''
       [nonlexical ''S'' ''S -> NP VP'',
        nonlexical ''NP'' ''NP -> NNP'',
        lexical ''NNP'' ''NNP -> 'John' '',
        nonlexical ''VP'' ''VP -> VBD'',
        lexical ''VBD'' ''VBD -> 'ran' '']"

text \<open>
  An environment for the small corpus: some order of enumeration, and the twelve digits
  \<^verbatim>\<open>print\<close> writes for the three doubles. And one whose reader raises, as on a
  path that does not exist.
\<close>

definition example_env :: environment where
  "example_env =
     \<lparr>parsed_sents = (\<lambda>path. Inr small_corpus),
      str_of_float = (\<lambda>q. if q = 1 then ''1.0''
                           else if q = 6004799503160661 / 9007199254740992 then ''0.666666666667''
                           else ''0.333333333333''),
      iter_terminal = (\<lambda>S. [''NN -> 'dog' '', ''DT -> 'the' '', ''VBD -> 'saw' '']),
      iteritems_binary = (\<lambda>b.
        [(''VP'', [(''VP -> VBD NP'', 1)]),
         (''NP'', [(''NP -> NP PP'', 1), (''NP -> DT NN'', 2)]),
         (''S'', [(''S -> NP VP'', 1)])])\<rparr>"

definition no_corpus_env :: environment where
  "no_corpus_env = example_env\<lparr>parsed_sents := (\<lambda>path. Inl (Exception ''IOError''))\<rparr>"

section \<open>The pass as a fold over the tallied productions\<close>

lemma processes_Returns: "processes p \<Longrightarrow> process_production p s = Returns (tally p s)"
  by (auto simp: processes_def tally_def process_production_def split: sum.splits bool.splits)

lemma not_processes_Raises: "\<not> processes p \<Longrightarrow> \<exists>e. \<forall>s. process_production p s = Raises e s"
  by (auto simp: processes_def process_production_def split: sum.splits bool.splits)

lemma for_productions_fold:
  "\<exists>r. \<forall>s. for_productions ps s = finish r (fold tally (takeWhile processes ps) s)"
proof (induction ps)
  case Nil
  have "\<forall>s. for_productions [] s = finish None (fold tally (takeWhile processes []) s)"
    by simp
  then show ?case by blast
next
  case (Cons p ps)
  show ?case
  proof (cases "processes p")
    case True
    from Cons obtain r where
      "\<forall>s. for_productions ps s = finish r (fold tally (takeWhile processes ps) s)" by blast
    with True have
      "\<forall>s. for_productions (p # ps) s = finish r (fold tally (takeWhile processes (p # ps)) s)"
      by (simp add: processes_Returns)
    then show ?thesis by blast
  next
    case False
    then obtain e where "\<forall>s. process_production p s = Raises e s"
      using not_processes_Raises by blast
    with False have
      "\<forall>s. for_productions (p # ps) s =
         finish (Some e) (fold tally (takeWhile processes (p # ps)) s)"
      by simp
    then show ?thesis by blast
  qed
qed

lemma for_productions_state:
  "state_of (for_productions ps s) = fold tally (takeWhile processes ps) s"
proof -
  obtain r where "for_productions ps s = finish r (fold tally (takeWhile processes ps) s)"
    using for_productions_fold by blast
  then show ?thesis by (cases r) simp_all
qed

lemma finish_caught:
  "(case finish r t of
      Returns s' \<Rightarrow> Returns s'
    | Raises e s' \<Rightarrow> if instance_of_Exception e then Returns s' else Raises e s') =
   finish (case r of None \<Rightarrow> None
           | Some e \<Rightarrow> if instance_of_Exception e then None else Some e) t"
  by (cases r) simp_all

lemma process_sentence_finish:
  "\<exists>r. \<forall>s. process_sentence sent s = finish r (fold tally (tallied_of sent) s)"
proof (cases "label sent")
  case (Inl e)
  then have "\<forall>s. process_sentence sent s = finish (Some e) (fold tally (tallied_of sent) s)"
    by (simp add: process_sentence_def tallied_of_def)
  then show ?thesis by blast
next
  case label: (Inr l)
  show ?thesis
  proof (cases "l = ''CODE''")
    case True
    with label have "\<forall>s. process_sentence sent s = finish None (fold tally (tallied_of sent) s)"
      by (simp add: process_sentence_def tallied_of_def)
    then show ?thesis by blast
  next
    case not_code: False
    have "\<exists>r. \<forall>s. try_block sent s = finish r (fold tally (tallied_of sent) s)"
    proof (cases "chomsky_normal_form sent")
      case (Inl e)
      with label not_code have
        "\<forall>s. try_block sent s = finish (Some e) (fold tally (tallied_of sent) s)"
        by (simp add: try_block_def tallied_of_def)
      then show ?thesis by blast
    next
      case cnf: (Inr u)
      show ?thesis
      proof (cases "productions sent")
        case (Inl e)
        with label not_code cnf have
          "\<forall>s. try_block sent s = finish (Some e) (fold tally (tallied_of sent) s)"
          by (simp add: try_block_def tallied_of_def)
        then show ?thesis by blast
      next
        case (Inr ps)
        with label not_code cnf show ?thesis
          using for_productions_fold [of ps] by (simp add: try_block_def tallied_of_def)
      qed
    qed
    then obtain r where "\<forall>s. try_block sent s = finish r (fold tally (tallied_of sent) s)"
      by blast
    with label not_code have "\<forall>s. process_sentence sent s =
        finish (case r of None \<Rightarrow> None
                | Some e \<Rightarrow> if instance_of_Exception e then None else Some e)
          (fold tally (tallied_of sent) s)"
      by (simp add: process_sentence_def finish_caught)
    then show ?thesis by blast
  qed
qed

lemma process_sentence_fold:
  "process_sentence sent s = finish (leaves sent) (fold tally (tallied_of sent) s)"
proof -
  obtain r where r: "\<forall>s. process_sentence sent s = finish r (fold tally (tallied_of sent) s)"
    using process_sentence_finish by blast
  then have "leaves sent = r"
    by (cases r) (simp_all add: leaves_def)
  with r show ?thesis by simp
qed

lemma for_sentences_fold:
  "for_sentences steps s = finish (aborted_steps steps) (fold tally (tallied_steps steps) s)"
proof (induction steps arbitrary: s rule: tallied_steps.induct)
  case 1
  show ?case by simp
next
  case (2 e steps)
  show ?case by simp
next
  case (3 sent steps)
  show ?case
  proof (cases "leaves sent")
    case None
    with 3 show ?thesis by (simp add: process_sentence_fold)
  next
    case (Some e)
    then show ?thesis by (simp add: process_sentence_fold)
  qed
qed

lemma for_sentences_append:
  "for_sentences (xs @ ys) s =
     (case for_sentences xs s of Raises e s' \<Rightarrow> Raises e s' | Returns s' \<Rightarrow> for_sentences ys s')"
  by (induction xs s rule: for_sentences.induct) (simp_all split: outcome.splits)

lemma for_files_concat: "for_files files s = for_sentences (concat files) s"
  by (induction files arbitrary: s) (simp_all add: for_sentences_append split: outcome.splits)

lemma counting_pass_fold:
  "counting_pass files = finish (aborted files) (fold tally (tallied files) initial_state)"
  by (simp add: counting_pass_def for_files_concat for_sentences_fold tallied_def aborted_def)

lemma counting_pass_Returns:
  "counting_pass files = Returns s \<Longrightarrow> s = fold tally (tallied files) initial_state"
  by (cases "aborted files") (simp_all add: counting_pass_fold)

lemma tallied_of_subset: "set (tallied_of sent) \<subseteq> {p. processes p}"
proof (cases "label sent")
  case (Inl e)
  then show ?thesis unfolding tallied_of_def by simp
next
  case label: (Inr l)
  show ?thesis
  proof (cases "l = ''CODE''")
    case True
    with label show ?thesis unfolding tallied_of_def by simp
  next
    case not_code: False
    show ?thesis
    proof (cases "chomsky_normal_form sent")
      case (Inl e)
      with label not_code show ?thesis unfolding tallied_of_def by simp
    next
      case (Inr u)
      with label not_code show ?thesis
        unfolding tallied_of_def
        by (cases "productions sent") (auto dest: set_takeWhileD)
    qed
  qed
qed

lemma tallied_steps_processes: "p \<in> set (tallied_steps steps) \<Longrightarrow> processes p"
  using tallied_of_subset
  by (induction steps rule: tallied_steps.induct) (auto split: option.splits)

lemma tallied_processes: "p \<in> set (tallied files) \<Longrightarrow> processes p"
  unfolding tallied_def by (rule tallied_steps_processes)

text \<open>One more occurrence of a rule adds one to its count and to no other.\<close>

lemma count_in_count_rule:
  "count_in (count_rule lhs rule b) lhs' rule' =
     count_in b lhs' rule' + (if lhs' = lhs \<and> rule' = rule then 1 else 0)"
  by (auto simp: count_in_def count_rule_def Let_def dom_def split: option.splits)

lemma counts_positive_count_rule:
  "counts_positive b \<Longrightarrow> counts_positive (count_rule lhs rule b)"
  unfolding counts_positive_def count_rule_def Let_def
  by (auto simp: dom_def split: if_splits)

lemma tally_cases:
  assumes "processes p"
  obtains (lexical) r where "is_lexical p = Inr True" "unicode_repr p = Inr r"
      "\<And>s. tally p s = s\<lparr>terminal := insert r (terminal s)\<rparr>"
  | (nonlexical) lhs rule where "is_lexical p = Inr False" "lhs_unicode_repr p = Inr lhs"
      "unicode_repr p = Inr rule"
      "\<And>s. tally p s = s\<lparr>binary := count_rule lhs rule (binary s)\<rparr>"
  using assms
  by (auto simp: processes_def tally_def process_production_def split: sum.splits bool.splits)

lemma count_in_tally:
  assumes "processes p"
  shows "count_in (binary (tally p s)) lhs rule =
           count_in (binary s) lhs rule + occurrences lhs rule [p]"
  using assms
  by (cases p rule: tally_cases) (auto simp: count_in_count_rule occurrences_def)

lemma occurrences_Cons:
  "occurrences lhs rule (p # ps) = occurrences lhs rule [p] + occurrences lhs rule ps"
  by (simp add: occurrences_def)

lemma count_in_fold:
  "\<forall>p\<in>set ps. processes p \<Longrightarrow>
   count_in (binary (fold tally ps s)) lhs rule =
     count_in (binary s) lhs rule + occurrences lhs rule ps"
proof (induction ps arbitrary: s)
  case Nil
  show ?case by (simp add: occurrences_def)
next
  case (Cons p ps)
  then show ?case
    using occurrences_Cons [of lhs rule p ps] by (simp add: count_in_tally)
qed

lemma counts_positive_tally:
  "processes p \<Longrightarrow> counts_positive (binary s) \<Longrightarrow> counts_positive (binary (tally p s))"
  by (cases p rule: tally_cases) (auto simp: counts_positive_count_rule)

lemma counts_positive_fold:
  "\<forall>p\<in>set ps. processes p \<Longrightarrow> counts_positive (binary s) \<Longrightarrow>
   counts_positive (binary (fold tally ps s))"
  by (induction ps arbitrary: s) (simp_all add: counts_positive_tally)

lemma terminal_fold:
  "\<forall>p\<in>set ps. processes p \<Longrightarrow>
   terminal (fold tally ps s) =
     terminal s \<union> {r. \<exists>p\<in>set ps. is_lexical p = Inr True \<and> unicode_repr p = Inr r}"
proof (induction ps arbitrary: s)
  case Nil
  show ?case by simp
next
  case (Cons p ps)
  from Cons.prems have "processes p" by simp
  then show ?case
    using Cons by (cases p rule: tally_cases) auto
qed

lemma counts_positive_initial: "counts_positive (binary initial_state)"
  by (simp add: counts_positive_def initial_state_def)

section \<open>Enumerations of the dictionaries\<close>

lemma iterates_dict_lookup:
  "iterates_dict kvs m \<Longrightarrow> (k, v) \<in> set kvs \<Longrightarrow> m k = Some v"
  by (auto simp: iterates_dict_def)

lemma iterates_dict_nonempty:
  "iterates_dict kvs m \<Longrightarrow> m \<noteq> Map.empty \<Longrightarrow> kvs \<noteq> []"
  by (auto simp: iterates_dict_def)

lemma iterates_binary_lookup:
  assumes "iterates_binary bs b" and "(lhs, rules) \<in> set bs"
  shows "b lhs = Some (map_of rules) \<and> iterates_dict rules (map_of rules)"
proof -
  let ?kvs = "map (\<lambda>(lhs, rules). (lhs, map_of rules)) bs"
  from assms(1) have d: "iterates_dict ?kvs b"
    and r: "list_all (\<lambda>(lhs, rules). distinct (map fst rules)) bs"
    by (simp_all add: iterates_binary_def)
  from assms(2) have "(lhs, map_of rules) \<in> set ?kvs" by force
  with d have "b lhs = Some (map_of rules)" by (rule iterates_dict_lookup)
  moreover from r assms(2) have "distinct (map fst rules)"
    by (auto simp: list_all_iff)
  ultimately show ?thesis by (simp add: iterates_dict_def)
qed

lemma num_rules_of_positive:
  assumes "iterates_dict rules m" and "m \<noteq> Map.empty"
    and "\<forall>rule c. m rule = Some c \<longrightarrow> 1 \<le> c"
  shows "1 \<le> num_rules_of rules"
proof -
  from assms(1,2) obtain rule c where in_rules: "(rule, c) \<in> set rules"
    using iterates_dict_nonempty [of rules m] by (cases rules) auto
  with assms(1) have "m rule = Some c" by (rule iterates_dict_lookup)
  with assms(3) have "1 \<le> c" by blast
  moreover from in_rules have "c \<in> set (map snd rules)" by force
  then have "c \<le> sum_list (map snd rules)" by (simp add: member_le_sum_list)
  ultimately show ?thesis by (simp add: num_rules_of_def)
qed

lemma counting_pass_counts_positive:
  assumes "counting_pass files = Returns s"
  shows "counts_positive (binary s)"
proof -
  from assms have "s = fold tally (tallied files) initial_state"
    by (rule counting_pass_Returns)
  then show ?thesis
    using counts_positive_fold [of "tallied files" initial_state]
      tallied_processes counts_positive_initial by blast
qed

section \<open>Rounding to a double\<close>

lemma pow2_powi: "pow2 k = 2 powi k"
  by (simp add: pow2_def power_int_def power_inverse inverse_eq_divide power_one_over)

lemma pow2_pos: "0 < pow2 k"
  by (simp add: pow2_powi)

lemma pow2_add: "pow2 (a + b) = pow2 a * pow2 b"
  by (simp add: pow2_powi power_int_add)

lemma pow2_diff: "pow2 (a - b) = pow2 a / pow2 b"
  by (simp add: pow2_powi power_int_diff)

lemma pow2_nat: "0 \<le> k \<Longrightarrow> pow2 k = 2 ^ nat k"
  by (simp add: pow2_def)

lemma round_half_even_bound: "\<bar>of_int (round_half_even x) - x\<bar> \<le> 1 / 2"
proof -
  have "of_int \<lfloor>x\<rfloor> \<le> x" and "x < of_int \<lfloor>x\<rfloor> + 1" by linarith+
  then show ?thesis
    by (auto simp: round_half_even_def Let_def abs_le_iff)
qed

lemma round_half_even_of_int: "round_half_even (of_int k) = k"
  by (simp add: round_half_even_def)

lemma exponent_of_le:
  assumes "0 < q"
  shows "pow2 (exponent_of q) \<le> q"
proof -
  obtain a b where ab: "quotient_of q = (a, b)" by (cases "quotient_of q")
  then have b: "0 < b" and q: "q = of_int a / of_int b"
    by (simp_all add: quotient_of_denom_pos quotient_of_div)
  with assms have a: "0 < a" by (simp add: zero_less_divide_iff)
  let ?e = "bitlen a - bitlen b"
  show ?thesis
  proof (cases "pow2 ?e \<le> q")
    case True
    with ab show ?thesis by (simp add: exponent_of_def)
  next
    case False
    from bitlen_bounds [OF a] have lo: "2 ^ nat (bitlen a - 1) \<le> a" by simp
    from bitlen_bounds [OF b] have hi: "b < 2 ^ nat (bitlen b)" by simp
    from a have la: "1 \<le> bitlen a" by (auto simp: bitlen_alt_def)
    have lb: "0 \<le> bitlen b" by (rule bitlen_nonneg)
    have "pow2 (?e - 1) = pow2 (bitlen a - 1) / pow2 (bitlen b)"
      using pow2_diff [of "bitlen a - 1" "bitlen b"] by (simp add: algebra_simps)
    also have "\<dots> = 2 ^ nat (bitlen a - 1) / 2 ^ nat (bitlen b)"
      using la lb by (simp add: pow2_nat)
    also have "\<dots> \<le> of_int a / of_int b"
    proof -
      have "(2::rat) ^ nat (bitlen a - 1) \<le> of_int a"
        using lo by (metis of_int_le_iff of_int_numeral of_int_power)
      moreover have "(of_int b :: rat) \<le> 2 ^ nat (bitlen b)"
        using hi by (metis less_imp_le of_int_le_iff of_int_numeral of_int_power)
      moreover have "(0::rat) < of_int b" using b by simp
      moreover have "(0::rat) \<le> of_int a" using a by simp
      ultimately show ?thesis by (intro frac_le)
    qed
    finally have "pow2 (?e - 1) \<le> q" using q by simp
    with False ab show ?thesis by (simp add: exponent_of_def)
  qed
qed

lemma to_double_error:
  assumes "0 < q"
  shows "\<bar>to_double q - q\<bar> \<le> q / 2 ^ 53"
proof -
  let ?e = "exponent_of q"
  let ?y = "q * pow2 (52 - ?e)"
  have d: "to_double q = of_int (round_half_even ?y) * pow2 (?e - 52)"
    using assms by (simp add: to_double_def Let_def)
  have inv: "pow2 (52 - ?e) * pow2 (?e - 52) = 1"
    using pow2_add [of "52 - ?e" "?e - 52"] by (simp add: pow2_def)
  have "to_double q - q = (of_int (round_half_even ?y) - ?y) * pow2 (?e - 52)"
    using inv by (simp add: d algebra_simps)
  then have "\<bar>to_double q - q\<bar> = \<bar>of_int (round_half_even ?y) - ?y\<bar> * pow2 (?e - 52)"
    using pow2_pos [of "?e - 52"] by (simp add: abs_mult)
  also have "\<dots> \<le> (1 / 2) * pow2 (?e - 52)"
    using round_half_even_bound [of ?y] pow2_pos [of "?e - 52"]
    by (intro mult_right_mono) simp_all
  also have "\<dots> = pow2 ?e / 2 ^ 53"
    using pow2_diff [of ?e 52] by (simp add: pow2_def)
  also have "\<dots> \<le> q / 2 ^ 53"
    using exponent_of_le [OF assms] by (simp add: divide_right_mono)
  finally show ?thesis .
qed

lemma to_double_pos:
  assumes "0 < q"
  shows "0 < to_double q"
proof -
  have "\<bar>to_double q - q\<bar> \<le> q / 2 ^ 53" using assms by (rule to_double_error)
  moreover have "q / 2 ^ 53 < q" using assms by (simp add: field_simps)
  ultimately show ?thesis by linarith
qed

lemma to_double_of_nat:
  assumes "n < 2 ^ 53"
  shows "to_double (of_nat n) = of_nat n"
proof (cases "n = 0")
  case True
  then show ?thesis by (simp add: to_double_def)
next
  case False
  then have n: "0 < int n" by simp
  have q: "quotient_of (of_nat n) = (int n, 1)"
    using quotient_of_int [of "int n"] by (simp add: Rat.of_int_def)
  have one: "bitlen 1 = 1" by (simp add: bitlen_alt_def)
  let ?e = "bitlen (int n) - 1"
  from n have la: "1 \<le> bitlen (int n)" by (auto simp: bitlen_alt_def)
  have "pow2 ?e \<le> of_nat n"
  proof -
    from bitlen_bounds [OF n] have "2 ^ nat ?e \<le> int n" by simp
    then have "(2::rat) ^ nat ?e \<le> of_int (int n)"
      by (metis of_int_le_iff of_int_numeral of_int_power)
    with la show ?thesis by (simp add: pow2_nat)
  qed
  with q one have e: "exponent_of (of_nat n) = ?e"
    by (simp add: exponent_of_def)
  from assms have "bitlen (int n) \<le> 53"
    using less_power_nat_iff_bitlen [of n 53] by simp
  then have k: "0 \<le> 52 - ?e" by simp
  have "of_nat n * pow2 (52 - ?e) = (of_int (int n * 2 ^ nat (52 - ?e)) :: rat)"
    using k by (simp add: pow2_nat)
  then have r: "round_half_even (of_nat n * pow2 (52 - ?e)) = int n * 2 ^ nat (52 - ?e)"
    by (simp only: round_half_even_of_int)
  have inv: "pow2 (52 - ?e) * pow2 (?e - 52) = 1"
    using pow2_add [of "52 - ?e" "?e - 52"] by (simp add: pow2_def)
  have "to_double (of_nat n) = of_int (int n * 2 ^ nat (52 - ?e)) * pow2 (?e - 52)"
    using False e r by (simp add: to_double_def Let_def)
  also have "\<dots> = of_nat n * (pow2 (52 - ?e) * pow2 (?e - 52))"
    using k by (simp add: pow2_nat)
  finally show ?thesis using inv by simp
qed

lemma double_quotient_exact_args:
  assumes "count < 2 ^ 53" and "num_rules < 2 ^ 53"
  shows "double_quotient count num_rules = to_double (of_nat count / of_nat num_rules)"
  using assms by (simp add: double_quotient_def to_double_of_nat)

lemma double_quotient_error:
  assumes "count < 2 ^ 53" and "num_rules < 2 ^ 53"
  shows "\<bar>double_quotient count num_rules - of_nat count / of_nat num_rules\<bar> \<le>
           of_nat count / of_nat num_rules / 2 ^ 53"
proof (cases "0 < count \<and> 0 < num_rules")
  case True
  then have "(0::rat) < of_nat count / of_nat num_rules" by simp
  then have "\<bar>to_double (of_nat count / of_nat num_rules) - of_nat count / of_nat num_rules\<bar> \<le>
           of_nat count / of_nat num_rules / 2 ^ 53"
    by (rule to_double_error)
  then show ?thesis
    by (simp only: double_quotient_exact_args [OF assms])
next
  case False
  then have z: "of_nat count / of_nat num_rules = (0::rat)" by auto
  then have "double_quotient count num_rules = 0"
    using double_quotient_exact_args [OF assms] by (simp add: to_double_def)
  with z show ?thesis by (simp only: )
qed

lemma relative_frequency_Returns:
  "1 \<le> num_rules \<Longrightarrow> relative_frequency count num_rules = Inr (double_quotient count num_rules)"
  using to_double_pos [of "of_nat num_rules"] by (auto simp: relative_frequency_def)

section \<open>Evaluating the small corpus\<close>

lemmas run_simps = counting_pass_def process_sentence_def try_block_def
  process_production_def count_rule_def initial_state_def Let_def
  parsed_def lexical_def nonlexical_def

lemma small_corpus_returns:
  "counting_pass small_corpus = Returns (state_of (counting_pass small_corpus))"
  by (simp add: run_simps small_corpus_def)

lemma small_corpus_np:
  "binary (state_of (counting_pass small_corpus)) ''NP'' =
     Some (map_of [(''NP -> DT NN'', 2), (''NP -> NP PP'', 1)])"
  by (auto simp: run_simps small_corpus_def fun_eq_iff)

lemma small_corpus_np_items:
  "iterates_dict [(''NP -> DT NN'', 2), (''NP -> NP PP'', 1 :: nat)]
     (map_of [(''NP -> DT NN'', 2), (''NP -> NP PP'', 1)])"
  by (simp add: iterates_dict_def)

lemma small_corpus_np_total:
  "num_rules_of [(''NP -> DT NN'', 2), (''NP -> NP PP'', 1 :: nat)] = 3"
  by (simp add: num_rules_of_def)

lemma double_two_thirds: "double_quotient 2 3 = 6004799503160661 / 9007199254740992"
  by code_simp

lemma double_one_third: "double_quotient 1 3 = 6004799503160661 / 18014398509481984"
  by code_simp

section \<open>Relative frequencies\<close>

lemma write_rules_unlines:
  "1 \<le> n \<Longrightarrow> write_rules f n rules = Returns (unlines (map (rule_line f n) rules))"
  by (induction rules)
     (auto simp: relative_frequency_Returns unlines_def rule_line_def py_print_def py_print2_def)

lemma sum_list_divide:
  "sum_list (map (\<lambda>(rule, count). of_nat count / (k::rat)) rules) =
     of_nat (num_rules_of rules) / k"
  unfolding num_rules_of_def
  by (induction rules) (auto simp: add_divide_distrib)

lemma sum_list_double_error:
  assumes "n < 2 ^ 53" and "\<forall>(rule, count)\<in>set rules. count < 2 ^ 53"
  shows "\<bar>sum_list (map (\<lambda>(rule, count). double_quotient count n) rules) -
           sum_list (map (\<lambda>(rule, count). of_nat count / of_nat n) rules)\<bar> \<le>
         sum_list (map (\<lambda>(rule, count). of_nat count / of_nat n) rules) / 2 ^ 53"
  using assms(2)
proof (induction rules)
  case Nil
  show ?case by simp
next
  case (Cons item rules)
  obtain rule count where item: "item = (rule, count)" by (cases item)
  with Cons.prems have "count < 2 ^ 53" by simp
  then have "\<bar>double_quotient count n - of_nat count / of_nat n\<bar> \<le>
      of_nat count / of_nat n / 2 ^ 53"
    using assms(1) by (rule double_quotient_error)
  moreover have "\<bar>sum_list (map (\<lambda>(rule, count). double_quotient count n) rules) -
           sum_list (map (\<lambda>(rule, count). of_nat count / of_nat n) rules)\<bar> \<le>
         sum_list (map (\<lambda>(rule, count). of_nat count / of_nat n) rules) / 2 ^ 53"
    using Cons by simp
  ultimately have "\<bar>(double_quotient count n +
          sum_list (map (\<lambda>(rule, count). double_quotient count n) rules)) -
        (of_nat count / of_nat n +
          sum_list (map (\<lambda>(rule, count). of_nat count / of_nat n) rules))\<bar> \<le>
      of_nat count / of_nat n / 2 ^ 53 +
        sum_list (map (\<lambda>(rule, count). of_nat count / of_nat n) rules) / 2 ^ 53"
    by linarith
  then show ?case
    unfolding item by (simp only: list.map sum_list.Cons prod.case add_divide_distrib)
qed

lemma counts_below_total:
  "(rule, count) \<in> set rules \<Longrightarrow> count \<le> num_rules_of rules"
proof -
  assume "(rule, count) \<in> set rules"
  then have "count \<in> set (map snd rules)" by force
  then show ?thesis
    unfolding num_rules_of_def by (simp add: member_le_sum_list)
qed

text \<open>
  C1 as stated fails: line 42 computes doubles. For the left-hand side \<^verbatim>\<open>NP\<close> of the
  small corpus, with counts 2 and 1, the two values it computes are the doubles nearest
  to 2/3 and 1/3, and their exact sum is \<open>1 - 1 / 2 ^ 54\<close>.
\<close>

theorem frequencies_sum_counterexample:
  "binary (state_of (counting_pass small_corpus)) ''NP'' =
     Some (map_of [(''NP -> DT NN'', 2), (''NP -> NP PP'', 1)]) \<and>
   num_rules_of [(''NP -> DT NN'', 2), (''NP -> NP PP'', 1 :: nat)] = 3 \<and>
   relative_frequency 2 3 = Inr (6004799503160661 / 9007199254740992) \<and>
   relative_frequency 1 3 = Inr (6004799503160661 / 18014398509481984) \<and>
   6004799503160661 / 9007199254740992 + 6004799503160661 / 18014398509481984 \<noteq> (1 :: rat)"
proof -
  have three: "1 \<le> (3 :: nat)" by simp
  have "relative_frequency 2 3 = Inr (6004799503160661 / 9007199254740992)"
    using relative_frequency_Returns [OF three, of 2] unfolding double_two_thirds .
  moreover have "relative_frequency 1 3 = Inr (6004799503160661 / 18014398509481984)"
    using relative_frequency_Returns [OF three, of 1] unfolding double_one_third .
  moreover have
    "6004799503160661 / 9007199254740992 + 6004799503160661 / 18014398509481984 \<noteq> (1 :: rat)"
    by simp
  ultimately show ?thesis
    using small_corpus_np small_corpus_np_total by blast
qed

text \<open>
  C1, amended. After the counting pass, for every left-hand side of the binary map and
  every enumeration of its rules, the exact quotients of each count by the sum of the
  counts of that left-hand side sum to 1. What the loop of lines 41 and 42 reports for
  each rule is the double computed from its count and that sum; when the sum is below
  \<open>2 ^ 53\<close> the reported values sum to 1 up to an error of at most \<open>1 / 2 ^ 53\<close>.
\<close>

theorem reported_frequencies:
  assumes "counting_pass files = Returns s"
    and "binary s lhs = Some m"
    and "iterates_dict rules m"
  shows "write_rules float_str (num_rules_of rules) rules =
           Returns (unlines (map (rule_line float_str (num_rules_of rules)) rules)) \<and>
         sum_list (map (\<lambda>(rule, count). of_nat count / of_nat (num_rules_of rules)) rules) =
           (1 :: rat) \<and>
         (num_rules_of rules < 2 ^ 53 \<longrightarrow>
            \<bar>sum_list (map (\<lambda>(rule, count). double_quotient count (num_rules_of rules)) rules) - 1\<bar>
              \<le> 1 / 2 ^ 53)"
proof -
  from assms(1) have "counts_positive (binary s)"
    by (rule counting_pass_counts_positive)
  with assms(2) have "m \<noteq> Map.empty" and "\<forall>rule c. m rule = Some c \<longrightarrow> 1 \<le> c"
    unfolding counts_positive_def by blast+
  with assms(3) have pos: "1 \<le> num_rules_of rules"
    by (rule num_rules_of_positive)
  have written: "write_rules float_str (num_rules_of rules) rules =
           Returns (unlines (map (rule_line float_str (num_rules_of rules)) rules))"
    using pos by (rule write_rules_unlines)
  have exact: "sum_list (map (\<lambda>(rule, count). of_nat count / of_nat (num_rules_of rules)) rules) =
      (1 :: rat)"
    unfolding sum_list_divide using pos by simp
  have "\<bar>sum_list (map (\<lambda>(rule, count). double_quotient count (num_rules_of rules)) rules) - 1\<bar>
              \<le> 1 / 2 ^ 53" if small: "num_rules_of rules < 2 ^ 53"
  proof -
    have "\<forall>(rule, count)\<in>set rules. count < 2 ^ 53"
      using counts_below_total small by fastforce
    from sum_list_double_error [OF small this] show ?thesis
      unfolding exact .
  qed
  with written exact show ?thesis by blast
qed

theorem reported_frequencies_witness:
  "counting_pass small_corpus = Returns (state_of (counting_pass small_corpus)) \<and>
   binary (state_of (counting_pass small_corpus)) ''NP'' =
     Some (map_of [(''NP -> DT NN'', 2), (''NP -> NP PP'', 1)]) \<and>
   iterates_dict [(''NP -> DT NN'', 2), (''NP -> NP PP'', 1 :: nat)]
     (map_of [(''NP -> DT NN'', 2), (''NP -> NP PP'', 1)]) \<and>
   write_rules (str_of_float example_env) 3 [(''NP -> DT NN'', 2), (''NP -> NP PP'', 1)] =
     Returns (unlines (map (rule_line (str_of_float example_env) 3)
       [(''NP -> DT NN'', 2), (''NP -> NP PP'', 1)])) \<and>
   sum_list (map (\<lambda>(rule, count). of_nat count / of_nat (3 :: nat))
     [(''NP -> DT NN'', 2), (''NP -> NP PP'', 1 :: nat)]) = (1 :: rat) \<and>
   (3 :: nat) < 2 ^ 53 \<and>
   \<bar>sum_list (map (\<lambda>(rule, count). double_quotient count 3)
      [(''NP -> DT NN'', 2), (''NP -> NP PP'', 1 :: nat)]) - 1\<bar> \<le> 1 / 2 ^ 53"
proof -
  have small: "(3 :: nat) < 2 ^ 53" by simp
  show ?thesis
    using reported_frequencies [OF small_corpus_returns small_corpus_np small_corpus_np_items,
        of "str_of_float example_env"]
      small_corpus_returns small_corpus_np small_corpus_np_items small
    unfolding small_corpus_np_total by blast
qed

text \<open>
  C8. After the counting pass, the dictionary of every left-hand side of the binary map
  is not empty and every count in it is at least 1; so the sum of its counts is at least
  1 and no division of line 42 raises \<^verbatim>\<open>ZeroDivisionError\<close>.
\<close>

theorem division_never_by_zero:
  assumes "counting_pass files = Returns s"
    and "binary s lhs = Some m"
    and "iterates_dict rules m"
  shows "m \<noteq> Map.empty \<and> (\<forall>rule c. m rule = Some c \<longrightarrow> 1 \<le> c) \<and>
         1 \<le> num_rules_of rules \<and>
         (\<forall>(rule, c) \<in> set rules. \<exists>q. relative_frequency c (num_rules_of rules) = Inr q)"
proof -
  from assms(1) have "counts_positive (binary s)"
    by (rule counting_pass_counts_positive)
  with assms(2) have ne: "m \<noteq> Map.empty" and ge: "\<forall>rule c. m rule = Some c \<longrightarrow> 1 \<le> c"
    by (auto simp: counts_positive_def)
  with assms(3) have pos: "1 \<le> num_rules_of rules"
    by (rule num_rules_of_positive)
  then have "\<forall>(rule, c) \<in> set rules. \<exists>q. relative_frequency c (num_rules_of rules) = Inr q"
    by (auto simp: relative_frequency_Returns)
  with ne ge pos show ?thesis by blast
qed

theorem division_never_by_zero_witness:
  "counting_pass small_corpus = Returns (state_of (counting_pass small_corpus)) \<and>
   binary (state_of (counting_pass small_corpus)) ''NP'' =
     Some (map_of [(''NP -> DT NN'', 2), (''NP -> NP PP'', 1)]) \<and>
   iterates_dict [(''NP -> DT NN'', 2), (''NP -> NP PP'', 1 :: nat)]
     (map_of [(''NP -> DT NN'', 2), (''NP -> NP PP'', 1)]) \<and>
   map_of [(''NP -> DT NN'', 2), (''NP -> NP PP'', 1 :: nat)] \<noteq> Map.empty \<and>
   1 \<le> num_rules_of [(''NP -> DT NN'', 2), (''NP -> NP PP'', 1)] \<and>
   (\<exists>q. relative_frequency 2
          (num_rules_of [(''NP -> DT NN'', 2), (''NP -> NP PP'', 1)]) = Inr q)"
  using division_never_by_zero [OF small_corpus_returns small_corpus_np small_corpus_np_items]
    small_corpus_returns small_corpus_np small_corpus_np_items
  by auto

section \<open>One production, one accumulator\<close>

lemma count_rule_changes: "count_rule lhs rule b \<noteq> b"
proof
  assume "count_rule lhs rule b = b"
  then have "count_in (count_rule lhs rule b) lhs rule = count_in b lhs rule" by simp
  then show False by (simp add: count_in_count_rule)
qed

text \<open>
  C9 as stated fails: a lexical production whose rule string is already in the terminal
  set changes neither accumulator.
\<close>

theorem repeated_lexical_counterexample:
  "process_production (lexical ''NN'' ''NN -> 'dog' '')
     \<lparr>terminal = {''NN -> 'dog' ''}, binary = Map.empty\<rparr> =
   Returns \<lparr>terminal = {''NN -> 'dog' ''}, binary = Map.empty\<rparr>"
  by (simp add: process_production_def lexical_def)

text \<open>
  C9, amended. Processing a production affects at most one accumulator. A lexical
  production on which the calls return puts its rule string into the terminal set, which
  stays as it is when the string is already there, and leaves the binary map unchanged.
  A non-lexical production on which the calls return adds one to the count of its rule
  under its left-hand side, which changes the binary map, leaves every other count and
  the terminal set unchanged. A production on which a call raises changes neither.
\<close>

theorem process_production_frame:
  "(is_lexical p = Inr True \<longrightarrow> unicode_repr p = Inr r \<longrightarrow>
      (\<exists>s'. process_production p s = Returns s' \<and>
            terminal s' = insert r (terminal s) \<and> binary s' = binary s)) \<and>
   (is_lexical p = Inr False \<longrightarrow> lhs_unicode_repr p = Inr lhs \<longrightarrow> unicode_repr p = Inr rule \<longrightarrow>
      (\<exists>s'. process_production p s = Returns s' \<and>
            terminal s' = terminal s \<and> binary s' \<noteq> binary s \<and>
            count_in (binary s') lhs rule = count_in (binary s) lhs rule + 1 \<and>
            (\<forall>lhs' rule'. (lhs', rule') \<noteq> (lhs, rule) \<longrightarrow>
               count_in (binary s') lhs' rule' = count_in (binary s) lhs' rule'))) \<and>
   (\<forall>e s'. process_production p s = Raises e s' \<longrightarrow> s' = s)"
proof (intro conjI impI allI)
  assume "is_lexical p = Inr True" and "unicode_repr p = Inr r"
  then show "\<exists>s'. process_production p s = Returns s' \<and>
            terminal s' = insert r (terminal s) \<and> binary s' = binary s"
    by (simp add: process_production_def)
next
  assume "is_lexical p = Inr False" and "lhs_unicode_repr p = Inr lhs"
    and "unicode_repr p = Inr rule"
  then have "process_production p s = Returns (s\<lparr>binary := count_rule lhs rule (binary s)\<rparr>)"
    by (simp add: process_production_def)
  then show "\<exists>s'. process_production p s = Returns s' \<and>
            terminal s' = terminal s \<and> binary s' \<noteq> binary s \<and>
            count_in (binary s') lhs rule = count_in (binary s) lhs rule + 1 \<and>
            (\<forall>lhs' rule'. (lhs', rule') \<noteq> (lhs, rule) \<longrightarrow>
               count_in (binary s') lhs' rule' = count_in (binary s) lhs' rule')"
    using count_rule_changes [of lhs rule "binary s"]
    by (auto simp: count_in_count_rule)
next
  fix e s'
  assume "process_production p s = Raises e s'"
  then show "s' = s"
    by (auto simp: process_production_def split: sum.splits bool.splits)
qed

theorem process_production_frame_witness:
  "(\<exists>s'. process_production (lexical ''NN'' ''NN -> 'cat' '')
            \<lparr>terminal = {''NN -> 'dog' ''}, binary = [''NP'' \<mapsto> [''NP -> DT NN'' \<mapsto> 2]]\<rparr> =
          Returns s' \<and>
        terminal s' = {''NN -> 'cat' '', ''NN -> 'dog' ''} \<and>
        binary s' = [''NP'' \<mapsto> [''NP -> DT NN'' \<mapsto> 2]]) \<and>
   (\<exists>s'. process_production (nonlexical ''NP'' ''NP -> DT NN'')
            \<lparr>terminal = {''NN -> 'dog' ''}, binary = [''NP'' \<mapsto> [''NP -> DT NN'' \<mapsto> 2]]\<rparr> =
          Returns s' \<and>
        terminal s' = {''NN -> 'dog' ''} \<and>
        binary s' \<noteq> [''NP'' \<mapsto> [''NP -> DT NN'' \<mapsto> 2]] \<and>
        count_in (binary s') ''NP'' ''NP -> DT NN'' = 3) \<and>
   process_production raising
     \<lparr>terminal = {''NN -> 'dog' ''}, binary = [''NP'' \<mapsto> [''NP -> DT NN'' \<mapsto> 2]]\<rparr> =
     Raises (Exception ''UnicodeDecodeError'')
       \<lparr>terminal = {''NN -> 'dog' ''}, binary = [''NP'' \<mapsto> [''NP -> DT NN'' \<mapsto> 2]]\<rparr>"
proof -
  let ?s = "\<lparr>terminal = {''NN -> 'dog' ''}, binary = [''NP'' \<mapsto> [''NP -> DT NN'' \<mapsto> 2]]\<rparr>"
  have l1: "is_lexical (lexical ''NN'' ''NN -> 'cat' '') = Inr True"
    and l2: "unicode_repr (lexical ''NN'' ''NN -> 'cat' '') = Inr ''NN -> 'cat' ''"
    by (simp_all add: lexical_def)
  have n1: "is_lexical (nonlexical ''NP'' ''NP -> DT NN'') = Inr False"
    and n2: "lhs_unicode_repr (nonlexical ''NP'' ''NP -> DT NN'') = Inr ''NP''"
    and n3: "unicode_repr (nonlexical ''NP'' ''NP -> DT NN'') = Inr ''NP -> DT NN''"
    by (simp_all add: nonlexical_def)
  have c: "count_in (binary ?s) ''NP'' ''NP -> DT NN'' = 2"
    by (simp add: count_in_def)
  have r: "process_production raising ?s = Raises (Exception ''UnicodeDecodeError'') ?s"
    by (simp add: process_production_def raising_def)
  from process_production_frame
    [where p = "lexical ''NN'' ''NN -> 'cat' ''" and r = "''NN -> 'cat' ''" and s = ?s,
      THEN conjunct1, THEN mp, THEN mp, OF l1 l2]
  have a: "\<exists>s'. process_production (lexical ''NN'' ''NN -> 'cat' '') ?s = Returns s' \<and>
      terminal s' = {''NN -> 'cat' '', ''NN -> 'dog' ''} \<and>
      binary s' = [''NP'' \<mapsto> [''NP -> DT NN'' \<mapsto> 2]]"
    by simp
  from process_production_frame
    [where p = "nonlexical ''NP'' ''NP -> DT NN''" and lhs = "''NP''"
       and rule = "''NP -> DT NN''" and s = ?s,
      THEN conjunct2, THEN conjunct1, THEN mp, THEN mp, THEN mp, OF n1 n2 n3]
  have b: "\<exists>s'. process_production (nonlexical ''NP'' ''NP -> DT NN'') ?s = Returns s' \<and>
      terminal s' = {''NN -> 'dog' ''} \<and>
      binary s' \<noteq> [''NP'' \<mapsto> [''NP -> DT NN'' \<mapsto> 2]] \<and>
      count_in (binary s') ''NP'' ''NP -> DT NN'' = 3"
    unfolding c by auto
  from a b r show ?thesis by blast
qed

section \<open>The command line\<close>

text \<open>
  C5. The program takes one positional argument, the corpus root path: with no argument
  it runs on \<^verbatim>\<open>./\<close>, with one or more it runs on the first.
\<close>

theorem main_path_argument:
  "main env [prog] = extract_cnf_from_anc_masc_ptb env ''./'' \<and>
   main env (prog # path # rest) = extract_cnf_from_anc_masc_ptb env path"
  by (simp add: main_def)

section \<open>Sentences that raise\<close>

text \<open>
  C2 as stated fails: a sentence whose second production raises has already put its first
  production into the terminal set, which the handler leaves as it is.
\<close>

theorem failing_sentence_counterexample:
  "try_block (parsed ''S'' [lexical ''DT'' ''DT -> 'the' '', raising]) initial_state =
     Raises (Exception ''UnicodeDecodeError'') \<lparr>terminal = {''DT -> 'the' ''}, binary = Map.empty\<rparr> \<and>
   process_sentence (parsed ''S'' [lexical ''DT'' ''DT -> 'the' '', raising]) initial_state =
     Returns \<lparr>terminal = {''DT -> 'the' ''}, binary = Map.empty\<rparr> \<and>
   terminal \<lparr>terminal = {''DT -> 'the' ''}, binary = Map.empty\<rparr> \<noteq> terminal initial_state"
  by (simp add: run_simps raising_def)

lemma try_block_state:
  assumes "label sent = Inr l" and "l \<noteq> ''CODE''"
  shows "state_of (try_block sent s) = fold tally (tallied_of sent) s"
  using assms
  by (simp add: try_block_def tallied_of_def for_productions_state split: sum.splits)

lemma tallied_of_cnf_raises: "chomsky_normal_form sent = Inl e \<Longrightarrow> tallied_of sent = []"
  by (cases "label sent") (simp_all add: tallied_of_def)

lemma tallied_of_productions_raises: "productions sent = Inl e \<Longrightarrow> tallied_of sent = []"
  by (cases "label sent"; cases "chomsky_normal_form sent") (simp_all add: tallied_of_def)

lemma tallied_of_productions:
  "label sent = Inr l \<Longrightarrow> l \<noteq> ''CODE'' \<Longrightarrow> chomsky_normal_form sent = Inr u \<Longrightarrow>
   productions sent = Inr ps \<Longrightarrow> tallied_of sent = takeWhile processes ps"
  by (simp add: tallied_of_def)

lemma for_productions_Raises:
  "for_productions ps s = Raises e s' \<Longrightarrow> \<exists>p\<in>set ps. \<not> processes p"
proof (induction ps arbitrary: s)
  case Nil
  then show ?case by simp
next
  case (Cons p ps)
  then show ?case
    by (cases "processes p") (auto simp: processes_Returns)
qed

text \<open>
  C2, amended. When the body of the \<^verbatim>\<open>try\<close> raises an instance of
  \<^verbatim>\<open>Exception\<close> on a sentence not labelled \<^verbatim>\<open>CODE\<close>, the exception is
  swallowed and the pass goes on with the next sentence from the state the accumulators
  are in. If the normalisation or \<^verbatim>\<open>productions()\<close> raised, that state is the one
  before the sentence; if the processing of a production raised, the productions before
  it are tallied and the ones from it on are not.
\<close>

theorem sentence_exception_swallowed:
  assumes "label sent = Inr l" and "l \<noteq> ''CODE''"
    and "try_block sent s = Raises e s'" and "instance_of_Exception e"
  shows "process_sentence sent s = Returns s' \<and>
         for_sentences (Inr sent # steps) s = for_sentences steps s' \<and>
         (\<forall>e1. chomsky_normal_form sent = Inl e1 \<longrightarrow> s' = s) \<and>
         (\<forall>e2. productions sent = Inl e2 \<longrightarrow> s' = s) \<and>
         (\<forall>u ps. chomsky_normal_form sent = Inr u \<longrightarrow> productions sent = Inr ps \<longrightarrow>
            s' = fold tally (takeWhile processes ps) s \<and> (\<exists>p\<in>set ps. \<not> processes p))"
proof -
  have ret: "process_sentence sent s = Returns s'"
    using assms by (simp add: process_sentence_def)
  then have go_on: "for_sentences (Inr sent # steps) s = for_sentences steps s'" by simp
  have s': "s' = fold tally (tallied_of sent) s"
    using try_block_state [OF assms(1,2), of s] assms(3) by simp
  have cnf: "\<forall>e1. chomsky_normal_form sent = Inl e1 \<longrightarrow> s' = s"
    using s' by (simp add: tallied_of_cnf_raises)
  have prods: "\<forall>e2. productions sent = Inl e2 \<longrightarrow> s' = s"
    using s' by (simp add: tallied_of_productions_raises)
  have loop: "\<forall>u ps. chomsky_normal_form sent = Inr u \<longrightarrow> productions sent = Inr ps \<longrightarrow>
            s' = fold tally (takeWhile processes ps) s \<and> (\<exists>p\<in>set ps. \<not> processes p)"
  proof (intro allI impI)
    fix u ps
    assume u: "chomsky_normal_form sent = Inr u" and ps: "productions sent = Inr ps"
    have "s' = fold tally (takeWhile processes ps) s"
      using s' tallied_of_productions [OF assms(1,2) u ps] by simp
    moreover have "for_productions ps s = Raises e s'"
      using assms(3) u ps by (simp add: try_block_def)
    then have "\<exists>p\<in>set ps. \<not> processes p" by (rule for_productions_Raises)
    ultimately show "s' = fold tally (takeWhile processes ps) s \<and> (\<exists>p\<in>set ps. \<not> processes p)"
      by blast
  qed
  from ret go_on cnf prods loop show ?thesis by blast
qed

theorem sentence_exception_swallowed_witness:
  "label (parsed ''S'' [lexical ''DT'' ''DT -> 'the' '', raising]) = Inr ''S'' \<and>
   ''S'' \<noteq> ''CODE'' \<and>
   try_block (parsed ''S'' [lexical ''DT'' ''DT -> 'the' '', raising]) initial_state =
     Raises (Exception ''UnicodeDecodeError'') \<lparr>terminal = {''DT -> 'the' ''}, binary = Map.empty\<rparr> \<and>
   instance_of_Exception (Exception ''UnicodeDecodeError'') \<and>
   process_sentence (parsed ''S'' [lexical ''DT'' ''DT -> 'the' '', raising]) initial_state =
     Returns \<lparr>terminal = {''DT -> 'the' ''}, binary = Map.empty\<rparr> \<and>
   for_sentences [Inr (parsed ''S'' [lexical ''DT'' ''DT -> 'the' '', raising])] initial_state =
     for_sentences [] \<lparr>terminal = {''DT -> 'the' ''}, binary = Map.empty\<rparr>"
proof -
  have l: "label (parsed ''S'' [lexical ''DT'' ''DT -> 'the' '', raising]) = Inr ''S''"
    by (simp add: parsed_def)
  have n: "''S'' \<noteq> ''CODE''" by simp
  have t: "try_block (parsed ''S'' [lexical ''DT'' ''DT -> 'the' '', raising]) initial_state =
     Raises (Exception ''UnicodeDecodeError'') \<lparr>terminal = {''DT -> 'the' ''}, binary = Map.empty\<rparr>"
    by (simp add: run_simps raising_def)
  have i: "instance_of_Exception (Exception ''UnicodeDecodeError'')" by simp
  show ?thesis
    using sentence_exception_swallowed [OF l n t i, of "[]"] l n t i by blast
qed

section \<open>Which trees are tallied\<close>

text \<open>
  C3 as stated fails: a tree labelled \<^verbatim>\<open>CODE\<close> is neither normalised nor tallied;
  the pass leaves the accumulators as they were, while the loop over its productions
  would have changed them.
\<close>

theorem code_sentence_counterexample:
  "process_sentence (parsed ''CODE'' [lexical ''NN'' ''NN -> 'dog' '']) initial_state =
     Returns initial_state \<and>
   for_productions [lexical ''NN'' ''NN -> 'dog' ''] initial_state =
     Returns \<lparr>terminal = {''NN -> 'dog' ''}, binary = Map.empty\<rparr> \<and>
   initial_state \<noteq> \<lparr>terminal = {''NN -> 'dog' ''}, binary = Map.empty\<rparr>"
  by (simp add: run_simps)

lemma takeWhile_all_processes: "\<forall>p\<in>set ps. processes p \<Longrightarrow> takeWhile processes ps = ps"
  by (simp add: takeWhile_eq_all_conv)

lemma for_productions_all:
  "\<forall>p\<in>set ps. processes p \<Longrightarrow> for_productions ps s = Returns (fold tally ps s)"
  by (induction ps arbitrary: s) (simp_all add: processes_Returns)

lemma processes_lexical: "processes (lexical lhs rule)"
  by (simp add: processes_def process_production_def lexical_def)

lemma processes_nonlexical: "processes (nonlexical lhs rule)"
  by (simp add: processes_def process_production_def nonlexical_def)

text \<open>
  C3, amended. Every parse tree whose label is not \<^verbatim>\<open>CODE\<close> and on which no call
  raises is normalised and has every production tallied: a non-lexical production adds
  one to the count of its rule under its left-hand side, a lexical one puts its rule into
  the terminal set. A tree labelled \<^verbatim>\<open>CODE\<close> is skipped.
\<close>

theorem non_code_sentence_tallied:
  assumes "label sent = Inr l"
    and "chomsky_normal_form sent = Inr u" and "productions sent = Inr ps"
    and "\<forall>p\<in>set ps. processes p"
  shows "process_sentence sent s = Returns (if l = ''CODE'' then s else fold tally ps s) \<and>
         (\<forall>lhs rule. count_in (binary (fold tally ps s)) lhs rule =
            count_in (binary s) lhs rule + occurrences lhs rule ps) \<and>
         terminal (fold tally ps s) =
           terminal s \<union> {r. \<exists>p\<in>set ps. is_lexical p = Inr True \<and> unicode_repr p = Inr r}"
proof -
  have "try_block sent s = Returns (fold tally ps s)"
    using assms(2,3,4) by (simp add: try_block_def for_productions_all)
  then have "process_sentence sent s = Returns (if l = ''CODE'' then s else fold tally ps s)"
    using assms(1) by (simp add: process_sentence_def)
  moreover have "\<forall>lhs rule. count_in (binary (fold tally ps s)) lhs rule =
            count_in (binary s) lhs rule + occurrences lhs rule ps"
    using assms(4) by (simp add: count_in_fold)
  moreover have "terminal (fold tally ps s) =
           terminal s \<union> {r. \<exists>p\<in>set ps. is_lexical p = Inr True \<and> unicode_repr p = Inr r}"
    using assms(4) by (rule terminal_fold)
  ultimately show ?thesis by blast
qed

theorem non_code_sentence_tallied_witness:
  "label (parsed ''S'' [nonlexical ''S'' ''S -> NP VP'', lexical ''NN'' ''NN -> 'dog' '']) = Inr ''S'' \<and>
   chomsky_normal_form (parsed ''S'' [nonlexical ''S'' ''S -> NP VP'', lexical ''NN'' ''NN -> 'dog' '']) =
     Inr () \<and>
   productions (parsed ''S'' [nonlexical ''S'' ''S -> NP VP'', lexical ''NN'' ''NN -> 'dog' '']) =
     Inr [nonlexical ''S'' ''S -> NP VP'', lexical ''NN'' ''NN -> 'dog' ''] \<and>
   processes (nonlexical ''S'' ''S -> NP VP'') \<and> processes (lexical ''NN'' ''NN -> 'dog' '') \<and>
   process_sentence (parsed ''S'' [nonlexical ''S'' ''S -> NP VP'', lexical ''NN'' ''NN -> 'dog' ''])
       initial_state =
     Returns (fold tally [nonlexical ''S'' ''S -> NP VP'', lexical ''NN'' ''NN -> 'dog' ''] initial_state) \<and>
   count_in (binary (fold tally [nonlexical ''S'' ''S -> NP VP'', lexical ''NN'' ''NN -> 'dog' '']
       initial_state)) ''S'' ''S -> NP VP'' = 1"
proof -
  let ?ps = "[nonlexical ''S'' ''S -> NP VP'', lexical ''NN'' ''NN -> 'dog' '']"
  have l: "label (parsed ''S'' ?ps) = Inr ''S''"
    and c: "chomsky_normal_form (parsed ''S'' ?ps) = Inr ()"
    and p: "productions (parsed ''S'' ?ps) = Inr ?ps"
    by (simp_all add: parsed_def)
  have a: "\<forall>p\<in>set ?ps. processes p"
    by (simp add: processes_lexical processes_nonlexical)
  have o: "occurrences ''S'' ''S -> NP VP'' ?ps = 1"
    by (simp add: occurrences_def nonlexical_def lexical_def)
  have z: "count_in (binary initial_state) ''S'' ''S -> NP VP'' = 0"
    by (simp add: count_in_def initial_state_def)
  show ?thesis
    using non_code_sentence_tallied [OF l c p a, of initial_state] l c p a o z by simp
qed

section \<open>What the accumulators hold\<close>

text \<open>
  C4 as stated fails: the sentence below raises on its second production, so no sentence
  is successfully processed, and yet its first production is stored with count 1.
\<close>

theorem stored_count_counterexample:
  "binary (state_of (counting_pass
      [[Inr (parsed ''S'' [nonlexical ''S'' ''S -> NP VP'', raising])]])) ''S'' =
     Some [''S -> NP VP'' \<mapsto> 1] \<and>
   \<not> successfully_processed (parsed ''S'' [nonlexical ''S'' ''S -> NP VP'', raising]) \<and>
   occurrences ''S'' ''S -> NP VP''
     (concat (map productions_of (filter successfully_processed
        (sentences_of (concat [[Inr (parsed ''S'' [nonlexical ''S'' ''S -> NP VP'', raising])]]))))) = 0"
  by (simp add: run_simps raising_def successfully_processed_def occurrences_def)

lemma count_in_counting_pass:
  assumes "counting_pass files = Returns s"
  shows "count_in (binary s) lhs rule = occurrences lhs rule (tallied files)"
proof -
  from assms have "s = fold tally (tallied files) initial_state"
    by (rule counting_pass_Returns)
  moreover have "count_in (binary initial_state) lhs rule = 0"
    by (simp add: count_in_def initial_state_def)
  ultimately show ?thesis
    using count_in_fold [of "tallied files" initial_state lhs rule] tallied_processes by simp
qed

lemma terminal_counting_pass:
  assumes "counting_pass files = Returns s"
  shows "terminal s =
     {r. \<exists>p\<in>set (tallied files). is_lexical p = Inr True \<and> unicode_repr p = Inr r}"
proof -
  from assms have "s = fold tally (tallied files) initial_state"
    by (rule counting_pass_Returns)
  then show ?thesis
    using terminal_fold [of "tallied files" initial_state] tallied_processes
    by (simp add: initial_state_def)
qed

lemma occurrences_positive:
  "0 < occurrences lhs rule ps \<Longrightarrow>
   \<exists>p\<in>set ps. is_lexical p = Inr False \<and> lhs_unicode_repr p = Inr lhs \<and> unicode_repr p = Inr rule"
  unfolding occurrences_def by (induction ps) (auto split: if_splits)

lemma stored_rule_tallied:
  assumes "counting_pass files = Returns s"
    and "binary s lhs = Some rules" and "rules rule = Some c"
  shows "c = occurrences lhs rule (tallied files) \<and> 0 < c"
proof -
  have "count_in (binary s) lhs rule = c"
    using assms(2,3) by (simp add: count_in_def)
  then have "c = occurrences lhs rule (tallied files)"
    using count_in_counting_pass [OF assms(1), of lhs rule] by simp
  moreover have "counts_positive (binary s)"
    using assms(1) by (rule counting_pass_counts_positive)
  then have "1 \<le> c" using assms(2,3) by (auto simp: counts_positive_def)
  ultimately show ?thesis by simp
qed

text \<open>
  C4, amended. After the counting pass the state is a set of terminal-rule strings and a
  map from left-hand side to a map from rule string to count. A rule stored under a key
  is the rule string of a tallied non-lexical production with that key as its left-hand
  side, and its count is the number of tallied productions with that left-hand side and
  rule string, where the tallied productions are those of the sentences not labelled
  \<^verbatim>\<open>CODE\<close> up to the first call that raises in each. The terminal set holds the
  rule strings of the tallied lexical productions.
\<close>

theorem stored_counts:
  assumes "counting_pass files = Returns s"
    and "binary s lhs = Some rules" and "rules rule = Some c"
  shows "c = occurrences lhs rule (tallied files) \<and>
         (\<exists>p\<in>set (tallied files). is_lexical p = Inr False \<and>
            lhs_unicode_repr p = Inr lhs \<and> unicode_repr p = Inr rule) \<and>
         terminal s =
           {r. \<exists>p\<in>set (tallied files). is_lexical p = Inr True \<and> unicode_repr p = Inr r}"
proof -
  have c: "c = occurrences lhs rule (tallied files)" and pos: "0 < c"
    using stored_rule_tallied [OF assms] by simp_all
  from c pos have "\<exists>p\<in>set (tallied files). is_lexical p = Inr False \<and>
            lhs_unicode_repr p = Inr lhs \<and> unicode_repr p = Inr rule"
    using occurrences_positive [of lhs rule "tallied files"] by simp
  with c terminal_counting_pass [OF assms(1)] show ?thesis by blast
qed

lemma small_corpus_np_rule:
  "map_of [(''NP -> DT NN'', 2), (''NP -> NP PP'', 1 :: nat)] ''NP -> DT NN'' = Some 2"
  by simp

theorem stored_counts_witness:
  "counting_pass small_corpus = Returns (state_of (counting_pass small_corpus)) \<and>
   binary (state_of (counting_pass small_corpus)) ''NP'' =
     Some (map_of [(''NP -> DT NN'', 2), (''NP -> NP PP'', 1)]) \<and>
   map_of [(''NP -> DT NN'', 2), (''NP -> NP PP'', 1 :: nat)] ''NP -> DT NN'' = Some 2 \<and>
   2 = occurrences ''NP'' ''NP -> DT NN'' (tallied small_corpus)"
  using stored_counts [OF small_corpus_returns small_corpus_np small_corpus_np_rule]
    small_corpus_returns small_corpus_np small_corpus_np_rule
  by blast

section \<open>The arity of the rules in the binary map\<close>

text \<open>
  C7. The script calls the normalisation, names the accumulator \<^verbatim>\<open>binary\<close> and
  prints it under \<^verbatim>\<open>BINARIES\<close>, and then tallies every production
  \<^verbatim>\<open>is_lexical()\<close> reports as not lexical without looking at its right-hand side. On
  the tree \<^verbatim>\<open>(S (NP (NNP John)) (VP (VBD ran)))\<close> the rules \<^verbatim>\<open>NP -> NNP\<close> and
  \<^verbatim>\<open>VP -> VBD\<close>, with one symbol on the right, are stored in the binary map beside
  the binary rule \<^verbatim>\<open>S -> NP VP\<close>.
\<close>

theorem unary_rule_stored:
  "binary (state_of (counting_pass [[Inr john_ran]])) ''NP'' = Some [''NP -> NNP'' \<mapsto> 1] \<and>
   binary (state_of (counting_pass [[Inr john_ran]])) ''VP'' = Some [''VP -> VBD'' \<mapsto> 1] \<and>
   binary (state_of (counting_pass [[Inr john_ran]])) ''S'' = Some [''S -> NP VP'' \<mapsto> 1] \<and>
   rhs_symbols ''NP -> NNP'' = [''NNP''] \<and> \<not> strictly_binary ''NP -> NNP'' \<and>
   rhs_symbols ''VP -> VBD'' = [''VBD''] \<and> \<not> strictly_binary ''VP -> VBD'' \<and>
   rhs_symbols ''S -> NP VP'' = [''NP'', ''VP''] \<and> strictly_binary ''S -> NP VP''"
  by (simp add: run_simps john_ran_def strictly_binary_def rhs_symbols_def)

section \<open>Determinism of the counting pass\<close>

lemma tally_event_of:
  assumes "processes p" and "processes q" and "event_of p = event_of q"
  shows "tally p = tally q"
  using assms(1)
proof (cases p rule: tally_cases)
  case (lexical r)
  with assms(3) have "event_of q = Some (Terminal_rule r)" by (simp add: event_of_def)
  with assms(2) have "\<And>s. tally q s = s\<lparr>terminal := insert r (terminal s)\<rparr>"
    by (cases q rule: tally_cases) (auto simp: event_of_def)
  with lexical show ?thesis by (simp add: fun_eq_iff)
next
  case (nonlexical lhs rule)
  with assms(3) have "event_of q = Some (Binary_rule lhs rule)" by (simp add: event_of_def)
  with assms(2) have "\<And>s. tally q s = s\<lparr>binary := count_rule lhs rule (binary s)\<rparr>"
    by (cases q rule: tally_cases) (auto simp: event_of_def)
  with nonlexical show ?thesis by (simp add: fun_eq_iff)
qed

lemma fold_tally_events:
  assumes "map event_of ps = map event_of qs"
    and "\<forall>p\<in>set ps. processes p" and "\<forall>q\<in>set qs. processes q"
  shows "fold tally ps s = fold tally qs s"
proof -
  from assms(1) have "length ps = length qs" by (rule map_eq_imp_length_eq)
  then show ?thesis using assms
  proof (induction ps qs arbitrary: s rule: list_induct2)
    case Nil
    show ?case by simp
  next
    case (Cons p ps q qs)
    then have "tally p = tally q" by (simp add: tally_event_of)
    with Cons show ?case by simp
  qed
qed

text \<open>
  C10. The counting pass is a function of the steps of the reader: it enumerates neither
  the set nor the dictionaries, so nothing else enters the result. More than that, two
  runs that tally productions with the same rule strings in the same order, and end in
  the same way, end with the same terminal set and the same binary map, whatever else
  differs between the two corpora; two runs over the same sentences with the same results
  of every call are the special case of equal corpora.
\<close>

theorem counting_pass_deterministic:
  assumes "map event_of (tallied files) = map event_of (tallied files')"
    and "aborted files = aborted files'"
  shows "counting_pass files = counting_pass files'"
  using fold_tally_events [OF assms(1), of initial_state] tallied_processes assms(2)
  by (simp add: counting_pass_fold)

lemma not_processes_raising: "\<not> processes raising"
  by (simp add: processes_def process_production_def raising_def)

lemma same_events:
  "map event_of (tallied small_corpus) = map event_of (tallied other_corpus)"
  by (simp add: tallied_def tallied_of_def leaves_def run_simps small_corpus_def
      other_corpus_def raising_def processes_def event_of_def)

lemma same_end: "aborted small_corpus = aborted other_corpus"
  by (simp add: aborted_def leaves_def run_simps small_corpus_def other_corpus_def raising_def)

theorem counting_pass_deterministic_witness:
  "map event_of (tallied small_corpus) = map event_of (tallied other_corpus) \<and>
   aborted small_corpus = aborted other_corpus \<and>
   small_corpus \<noteq> other_corpus \<and>
   counting_pass small_corpus = counting_pass other_corpus"
proof -
  have "small_corpus \<noteq> other_corpus"
    by (simp add: small_corpus_def other_corpus_def)
  then show ?thesis
    using counting_pass_deterministic [OF same_events same_end] same_events same_end by blast
qed

section \<open>The text of the report\<close>

lemma lines_from_line:
  "one_line l \<Longrightarrow> lines_from cur (l @ newline # rest) = (cur @ l) # lines_from [] rest"
  by (induction l arbitrary: cur) (auto simp: one_line_def)

lemma lines_of_py_print:
  "one_line l \<Longrightarrow> lines_of (py_print l @ rest) = l # lines_of rest"
  using lines_from_line [of l "[]" rest] by (simp add: lines_of_def py_print_def)

lemma lines_of_unlines:
  "list_all one_line ls \<Longrightarrow> lines_of (unlines ls @ rest) = ls @ lines_of rest"
  unfolding unlines_def
  by (induction ls) (simp_all add: lines_of_py_print)

lemma py_print_join_newline:
  "py_print (join_newline ts) = (if ts = [] then py_print [] else unlines ts)"
  by (induction ts rule: join_newline.induct) (simp_all add: py_print_def unlines_def)

lemma lines_of_empty: "lines_of [] = []"
  by (simp add: lines_of_def)

lemma one_line_literals: "one_line ''TERMINALS''" "one_line ''BINARIES''" "one_line []"
  by (simp_all add: one_line_def newline_def)

lemma one_line_softspace: "one_line (softspace a)"
  by (simp add: one_line_def softspace_def newline_def)

lemma one_line_append: "one_line (a @ b) = (one_line a \<and> one_line b)"
  by (auto simp: one_line_def)

lemma unlines_append: "unlines (xs @ ys) = unlines xs @ unlines ys"
  by (simp add: unlines_def)

lemma write_binaries_unlines:
  "list_all (\<lambda>(lhs, rules). 1 \<le> num_rules_of rules) bs \<Longrightarrow>
   write_binaries f bs = Returns (unlines (binary_lines f bs))"
  by (induction bs) (auto simp: write_rules_unlines binary_lines_def unlines_append unlines_def)

lemma iterates_binary_positive:
  assumes "counts_positive b" and "iterates_binary bs b"
  shows "list_all (\<lambda>(lhs, rules). 1 \<le> num_rules_of rules) bs"
  unfolding list_all_iff
proof (intro ballI, clarify)
  fix lhs rules assume m: "(lhs, rules) \<in> set bs"
  from iterates_binary_lookup [OF assms(2) m]
  have l: "b lhs = Some (map_of rules)" and d: "iterates_dict rules (map_of rules)" by simp_all
  from assms(1) l have "map_of rules \<noteq> Map.empty"
    and "\<forall>rule c. map_of rules rule = Some c \<longrightarrow> 1 \<le> c"
    unfolding counts_positive_def by blast+
  with d show "1 \<le> num_rules_of rules" by (rule num_rules_of_positive)
qed

lemma one_line_binary_lines:
  assumes "list_all (\<lambda>(lhs, rules). list_all (\<lambda>(rule, count). one_line rule) rules) bs"
    and "\<forall>q. one_line (f q)"
  shows "list_all one_line (binary_lines f bs)"
  using assms
  by (fastforce simp: list_all_iff binary_lines_def rule_line_def one_line_append one_line_softspace)

lemma write_report_lines:
  assumes "list_all (\<lambda>(lhs, rules). 1 \<le> num_rules_of rules) bs"
    and "list_all one_line ts" and "list_all one_line (binary_lines f bs)"
  shows "\<exists>out. write_report f ts bs = Returns out \<and>
           lines_of out =
             ''TERMINALS'' # (if ts = [] then [[]] else ts) @ [[], ''BINARIES''] @ binary_lines f bs"
proof -
  let ?out = "py_print ''TERMINALS'' @ py_print (join_newline ts) @ py_print [] @
                 py_print ''BINARIES'' @ unlines (binary_lines f bs)"
  have w: "write_report f ts bs = Returns ?out"
    using assms(1) by (simp add: write_report_def write_binaries_unlines)
  have tail: "lines_of (py_print [] @ py_print ''BINARIES'' @ unlines (binary_lines f bs)) =
      [[], ''BINARIES''] @ binary_lines f bs"
    using lines_of_unlines [OF assms(3), of "[]"]
    by (simp add: lines_of_py_print one_line_literals lines_of_empty)
  have "lines_of (py_print (join_newline ts) @ py_print [] @ py_print ''BINARIES'' @
          unlines (binary_lines f bs)) =
        (if ts = [] then [[]] else ts) @ [[], ''BINARIES''] @ binary_lines f bs"
  proof (cases "ts = []")
    case True
    then show ?thesis using tail
      by (simp add: py_print_join_newline lines_of_py_print one_line_literals)
  next
    case False
    then show ?thesis using tail lines_of_unlines [OF assms(2)]
      by (simp add: py_print_join_newline)
  qed
  then have "lines_of ?out =
      ''TERMINALS'' # (if ts = [] then [[]] else ts) @ [[], ''BINARIES''] @ binary_lines f bs"
    by (simp add: lines_of_py_print one_line_literals)
  with w show ?thesis by blast
qed

text \<open>
  C6 as stated fails: a run whose reader raises, as on a path that does not exist, ends
  before line 32 and writes nothing, so its output has neither section.
\<close>

theorem missing_corpus_counterexample:
  "extract_cnf_from_anc_masc_ptb no_corpus_env ''/no/such/path'' =
     Raises (Exception ''IOError'') [] \<and>
   lines_of [] = []"
  by (simp add: extract_cnf_from_anc_masc_ptb_def no_corpus_env_def lines_of_def)

text \<open>
  C6, amended. In every run in which the reader returns and the counting pass returns,
  the function returns and the lines of what it wrote are, in this order: the label
  \<^verbatim>\<open>TERMINALS\<close>; the terminal-rule strings, one per line (one empty line when the
  set is empty); an empty line; the label \<^verbatim>\<open>BINARIES\<close>; and, one per line, every
  rule of the binary map followed by its relative frequency. The strings the library
  returns and the text of a double hold no newline.
\<close>

theorem report_sections:
  assumes "parsed_sents env path = Inr files"
    and "counting_pass files = Returns s"
    and "valid_iteration env s"
    and "list_all one_line (iter_terminal env (terminal s))"
    and "list_all (\<lambda>(lhs, rules). list_all (\<lambda>(rule, count). one_line rule) rules)
           (iteritems_binary env (binary s))"
    and "\<forall>q. one_line (str_of_float env q)"
  shows "\<exists>out. extract_cnf_from_anc_masc_ptb env path = Returns out \<and>
           lines_of out =
             ''TERMINALS'' #
             (if iter_terminal env (terminal s) = [] then [[]] else iter_terminal env (terminal s)) @
             [[], ''BINARIES''] @
             binary_lines (str_of_float env) (iteritems_binary env (binary s))"
proof -
  have "counts_positive (binary s)"
    using assms(2) by (rule counting_pass_counts_positive)
  moreover have "iterates_binary (iteritems_binary env (binary s)) (binary s)"
    using assms(3) by (simp add: valid_iteration_def)
  ultimately have pos: "list_all (\<lambda>(lhs, rules). 1 \<le> num_rules_of rules)
      (iteritems_binary env (binary s))"
    by (rule iterates_binary_positive)
  have "list_all one_line (binary_lines (str_of_float env) (iteritems_binary env (binary s)))"
    using assms(5,6) by (rule one_line_binary_lines)
  from write_report_lines [OF pos assms(4) this] show ?thesis
    using assms(1,2) by (simp add: extract_cnf_from_anc_masc_ptb_def)
qed

lemma double_values:
  "double_quotient (Suc 0) (Suc 0) = 1"
  "double_quotient (Suc 0) (Suc (Suc (Suc 0))) = 6004799503160661 / 18014398509481984"
  "double_quotient 2 (Suc (Suc (Suc 0))) = 6004799503160661 / 9007199254740992"
  by code_simp+

lemma small_corpus_state:
  "state_of (counting_pass small_corpus) =
     \<lparr>terminal = {''NN -> 'dog' '', ''DT -> 'the' '', ''VBD -> 'saw' ''},
      binary = map_of
        [(''VP'', map_of [(''VP -> VBD NP'', 1)]),
         (''NP'', map_of [(''NP -> NP PP'', 1), (''NP -> DT NN'', 2)]),
         (''S'', map_of [(''S -> NP VP'', 1)])]\<rparr>"
  by (auto simp: run_simps small_corpus_def fun_eq_iff)

lemma example_env_valid:
  "valid_iteration example_env (state_of (counting_pass small_corpus))"
  unfolding small_corpus_state
  by (simp add: valid_iteration_def example_env_def iterates_set_def iterates_binary_def
      iterates_dict_def)

lemma example_env_reader: "parsed_sents example_env ''./'' = Inr small_corpus"
  by (simp add: example_env_def)

lemma example_env_one_line:
  "list_all one_line (iter_terminal example_env (terminal (state_of (counting_pass small_corpus))))"
  "list_all (\<lambda>(lhs, rules). list_all (\<lambda>(rule, count). one_line rule) rules)
     (iteritems_binary example_env (binary (state_of (counting_pass small_corpus))))"
  "\<forall>q. one_line (str_of_float example_env q)"
  by (simp_all add: example_env_def one_line_def newline_def)

theorem report_sections_witness:
  "parsed_sents example_env ''./'' = Inr small_corpus \<and>
   counting_pass small_corpus = Returns (state_of (counting_pass small_corpus)) \<and>
   valid_iteration example_env (state_of (counting_pass small_corpus)) \<and>
   list_all one_line (iter_terminal example_env (terminal (state_of (counting_pass small_corpus)))) \<and>
   list_all (\<lambda>(lhs, rules). list_all (\<lambda>(rule, count). one_line rule) rules)
     (iteritems_binary example_env (binary (state_of (counting_pass small_corpus)))) \<and>
   (\<forall>q. one_line (str_of_float example_env q)) \<and>
   (\<exists>out. extract_cnf_from_anc_masc_ptb example_env ''./'' = Returns out \<and>
      lines_of out =
        [''TERMINALS'', ''NN -> 'dog' '', ''DT -> 'the' '', ''VBD -> 'saw' '', [], ''BINARIES'',
         ''VP -> VBD NP 1.0'', ''NP -> NP PP 0.333333333333'', ''NP -> DT NN 0.666666666667'',
         ''S -> NP VP 1.0''])"
proof -
  have l: "''TERMINALS'' #
      (if iter_terminal example_env (terminal (state_of (counting_pass small_corpus))) = [] then [[]]
       else iter_terminal example_env (terminal (state_of (counting_pass small_corpus)))) @
      [[], ''BINARIES''] @
      binary_lines (str_of_float example_env)
        (iteritems_binary example_env (binary (state_of (counting_pass small_corpus)))) =
      [''TERMINALS'', ''NN -> 'dog' '', ''DT -> 'the' '', ''VBD -> 'saw' '', [], ''BINARIES'',
         ''VP -> VBD NP 1.0'', ''NP -> NP PP 0.333333333333'', ''NP -> DT NN 0.666666666667'',
         ''S -> NP VP 1.0'']"
    by (simp add: example_env_def binary_lines_def rule_line_def num_rules_of_def softspace_def
        py_isspace_def double_values)
  show ?thesis
    using report_sections [OF example_env_reader small_corpus_returns example_env_valid
        example_env_one_line]
      example_env_reader small_corpus_returns example_env_valid example_env_one_line
    unfolding l by blast
qed

end
